theory Spec2Isabelle
  imports
    Complex_Main
    "HOL-Library.AList"
    "HOL-Library.Char_ord"
    "HOL-Library.List_Lexorder"
    "HOL-Library.Product_Lexorder"
begin

section \<open>Python values\<close>

text \<open>
  The token map of \<^verbatim>\<open>nft_snapshot.py\<close> is a Python dict of dicts whose values come
  from JSON documents (the cache file, the RPC replies, the off-chain metadata) and from
  the unpacked on-chain metadata account, which can leave \<^verbatim>\<open>bytes\<close> behind (the source
  says so in \<^verbatim>\<open>get_account_info_from_solana_async\<close>). A dict is an association list in
  insertion order with string keys; a \<^verbatim>\<open>str\<close> is held as its UTF-8 text; a float is held
  as the rational it denotes (NaN and the infinities are not represented).
\<close>

datatype pyval =
    PNone
  | PBool bool
  | PInt int
  | PFloat rat
  | PStr string
  | PBytes string
  | PList "pyval list"
  | PDict "(string \<times> pyval) list"

text \<open>The exceptions the modelled code can meet. All but \<open>KeyboardInterrupt\<close> are
  subclasses of Python's \<^verbatim>\<open>Exception\<close>, which is what \<^verbatim>\<open>except Exception\<close> catches.\<close>

datatype exn =
    KeyError
  | IndexError
  | TypeError
  | AttributeError
  | OSError
  | JSONDecodeError
  | ClientError
  | RecursionError
  | KeyboardInterrupt

fun is_Exception :: "exn \<Rightarrow> bool" where
  "is_Exception KeyboardInterrupt = False"
| "is_Exception _ = True"

text \<open>Truthiness, as \<^verbatim>\<open>if x:\<close>, \<^verbatim>\<open>not x\<close> and \<^verbatim>\<open>x or y\<close> test it.\<close>

fun py_truthy :: "pyval \<Rightarrow> bool" where
  "py_truthy PNone = False"
| "py_truthy (PBool b) = b"
| "py_truthy (PInt i) = (i \<noteq> 0)"
| "py_truthy (PFloat r) = (r \<noteq> 0)"
| "py_truthy (PStr s) = (s \<noteq> [])"
| "py_truthy (PBytes s) = (s \<noteq> [])"
| "py_truthy (PList xs) = (xs \<noteq> [])"
| "py_truthy (PDict kvs) = (kvs \<noteq> [])"

definition py_or :: "pyval \<Rightarrow> pyval \<Rightarrow> pyval" where
  "py_or x y = (if py_truthy x then x else y)"

text \<open>\<^verbatim>\<open>x.get(k)\<close>: only a dict has the method; a missing key gives \<^verbatim>\<open>None\<close>.\<close>

fun py_get :: "pyval \<Rightarrow> string \<Rightarrow> exn + pyval" where
  "py_get (PDict kvs) k = (case map_of kvs k of None \<Rightarrow> Inr PNone | Some v \<Rightarrow> Inr v)"
| "py_get _ k = Inl AttributeError"

text \<open>\<^verbatim>\<open>x['k']\<close> with a string key: \<^verbatim>\<open>KeyError\<close> on a dict without the key,
  \<^verbatim>\<open>TypeError\<close> on everything else (not subscriptable, or indices must be integers).\<close>

fun py_item :: "pyval \<Rightarrow> string \<Rightarrow> exn + pyval" where
  "py_item (PDict kvs) k = (case map_of kvs k of None \<Rightarrow> Inl KeyError | Some v \<Rightarrow> Inr v)"
| "py_item _ k = Inl TypeError"

text \<open>\<^verbatim>\<open>x[0]\<close>: the first element of a sequence; a dict has string keys only, so
  \<^verbatim>\<open>KeyError\<close>.\<close>

fun py_item0 :: "pyval \<Rightarrow> exn + pyval" where
  "py_item0 (PList xs) = (case xs of [] \<Rightarrow> Inl IndexError | x # _ \<Rightarrow> Inr x)"
| "py_item0 (PStr s) = (case s of [] \<Rightarrow> Inl IndexError | c # _ \<Rightarrow> Inr (PStr [c]))"
| "py_item0 (PBytes s) = (case s of [] \<Rightarrow> Inl IndexError | c # _ \<Rightarrow> Inr (PInt (of_char c)))"
| "py_item0 (PDict kvs) = Inl KeyError"
| "py_item0 _ = Inl TypeError"

text \<open>\<^verbatim>\<open>d[k] = v\<close> on a dict: the value is replaced in place, a new key goes last.\<close>

fun py_setitem :: "pyval \<Rightarrow> string \<Rightarrow> pyval \<Rightarrow> exn + pyval" where
  "py_setitem (PDict kvs) k v = Inr (PDict (AList.update k v kvs))"
| "py_setitem _ k v = Inl TypeError"

text \<open>Sequencing of steps that may raise.\<close>

definition bind_exn :: "exn + 'a \<Rightarrow> ('a \<Rightarrow> exn + 'b) \<Rightarrow> exn + 'b" where
  "bind_exn r f = (case r of Inl e \<Rightarrow> Inl e | Inr x \<Rightarrow> f x)"

section \<open>Logging and the cache directory\<close>

datatype level = DEBUG | INFO | WARNING | ERROR

type_synonym log_entry = "level \<times> string"

text \<open>
  A file of the cache directory holds text that either is a JSON document (held as the
  value \<^verbatim>\<open>json.load\<close> returns for it) or is not (empty, cut short, garbage). Whether
  the directory can be made and whether a path can be opened for writing or for reading
  are facts of the environment.
\<close>

datatype file_content = Json pyval | NotJson

record filesystem =
  files :: "string \<Rightarrow> file_content option"
  mkdir_ok :: bool
  writable :: "string \<Rightarrow> bool"
  readable :: "string \<Rightarrow> bool"

record world =
  disk :: filesystem
  logged :: "log_entry list"

definition emit :: "level \<Rightarrow> string \<Rightarrow> world \<Rightarrow> world" where
  "emit l msg w = w\<lparr>logged := logged w @ [(l, msg)]\<rparr>"

definition CACHE_DIR :: string where
  "CACHE_DIR = ''cache''"

definition cache_filename :: "string \<Rightarrow> string" where
  "cache_filename cache_file_key = cache_file_key @ ''_cache.json''"

text \<open>\<^verbatim>\<open>Path(CACHE_DIR) / filename\<close>: an absolute right operand replaces the left one.\<close>

definition cache_path :: "string \<Rightarrow> string" where
  "cache_path cache_file_key =
     (let filename = cache_filename cache_file_key in
      case filename of
        c # _ \<Rightarrow> if c = CHR ''/'' then filename else CACHE_DIR @ ''/'' @ filename
      | [] \<Rightarrow> CACHE_DIR @ ''/'' @ filename)"

text \<open>\<^verbatim>\<open>json.dump\<close> raises \<^verbatim>\<open>TypeError\<close> on \<^verbatim>\<open>bytes\<close>, at any depth.\<close>

fun json_serializable :: "pyval \<Rightarrow> bool" where
  "json_serializable (PBytes s) = False"
| "json_serializable (PList xs) = list_all json_serializable xs"
| "json_serializable (PDict kvs) = list_all json_serializable (map snd kvs)"
| "json_serializable _ = True"

text \<open>The \<^verbatim>\<open>try\<close> block of \<^verbatim>\<open>load_request_cache\<close>.\<close>

definition load_body :: "string \<Rightarrow> world \<Rightarrow> (exn + pyval) \<times> world" where
  "load_body cache_file_key w =
     (if \<not> readable (disk w) (cache_path cache_file_key) then (Inl OSError, w)
      else case files (disk w) (cache_path cache_file_key) of
        None \<Rightarrow> (Inl OSError, w)
      | Some NotJson \<Rightarrow> (Inl JSONDecodeError, w)
      | Some (Json cache_data) \<Rightarrow>
          (Inr cache_data, emit DEBUG ''Loaded cache data from %s'' w))"

definition load_request_cache :: "string \<Rightarrow> world \<Rightarrow> (exn + pyval) \<times> world" where
  "load_request_cache cache_file_key w =
     (case load_body cache_file_key w of
        (Inr cache_data, w') \<Rightarrow> (Inr cache_data, w')
      | (Inl e, w') \<Rightarrow>
          if is_Exception e
          then (Inr (PDict []), emit DEBUG ''Unable to load cache file %s: %s'' w')
          else (Inl e, w'))"

text \<open>The \<^verbatim>\<open>try\<close> block of \<^verbatim>\<open>save_request_cache\<close>. Opening with mode \<^verbatim>\<open>"w"\<close>
  truncates the file before \<^verbatim>\<open>json.dump\<close> runs, so a failed dump leaves text that is
  no JSON document.\<close>

definition save_body :: "string \<Rightarrow> pyval \<Rightarrow> world \<Rightarrow> (exn + unit) \<times> world" where
  "save_body cache_file_key cache_data w =
     (let path = cache_path cache_file_key; fs = disk w in
      if \<not> mkdir_ok fs then (Inl OSError, w)
      else if \<not> writable fs path then (Inl OSError, w)
      else if \<not> json_serializable cache_data
        then (Inl TypeError, w\<lparr>disk := fs\<lparr>files := (files fs)(path \<mapsto> NotJson)\<rparr>\<rparr>)
      else (Inr (),
            emit DEBUG ''Wrote cache data to %s''
              (w\<lparr>disk := fs\<lparr>files := (files fs)(path \<mapsto> Json cache_data)\<rparr>\<rparr>)))"

definition save_request_cache :: "string \<Rightarrow> pyval \<Rightarrow> world \<Rightarrow> (exn + unit) \<times> world" where
  "save_request_cache cache_file_key cache_data w =
     (case save_body cache_file_key cache_data w of
        (Inr u, w') \<Rightarrow> (Inr u, w')
      | (Inl e, w') \<Rightarrow>
          if is_Exception e
          then (Inr (), emit WARNING ''Unable to write cache file %s: %s'' w')
          else (Inl e, w'))"

section \<open>The remote services\<close>

text \<open>
  The ledger RPC client, the HTTP session and the helpers of \<^verbatim>\<open>utils.metadata\<close> (a module
  of the repository that is not among the sources at hand) are parameters of the model:
  each is a function from the request to the reply, or to the exception the call raises.
  The reply of the HTTP session also depends on how many times the task has asked before,
  which is the depth of the recursion of \<^verbatim>\<open>async_http_request\<close>. A \<^verbatim>\<open>str\<close> is held as its
  UTF-8 text, so \<^verbatim>\<open>bytes.decode()\<close> keeps the text when it is valid UTF-8
  (\<open>utf8_valid\<close>) and raises \<^verbatim>\<open>UnicodeDecodeError\<close> otherwise. The interpreter is part
  of the environment too: \<open>recursion_room\<close> is the number of nested calls of
  \<^verbatim>\<open>async_http_request\<close> that fit under its recursion limit (somewhat under a thousand
  with the default limit of 1000 frames).
\<close>

record response =
  status :: int
  json :: "exn + pyval"

record remote =
  get_token_largest_accounts :: "pyval \<Rightarrow> exn + pyval"
  get_account_info_parsed :: "pyval \<Rightarrow> exn + pyval"
  get_account_info :: "pyval \<Rightarrow> exn + pyval"
  get_metadata_account :: "pyval \<Rightarrow> exn + pyval"
  b64decode :: "pyval \<Rightarrow> exn + pyval"
  unpack_metadata_account :: "pyval \<Rightarrow> exn + pyval"
  utf8_valid :: "string \<Rightarrow> bool"
  session_get :: "pyval \<Rightarrow> nat \<Rightarrow> exn + response"
  recursion_room :: nat

text \<open>What one fetch task did besides changing its record: the URLs it requested, the
  seconds it slept, the lines it logged.\<close>

record trace =
  requested :: "pyval list"
  slept :: nat
  tlog :: "log_entry list"

definition trace0 :: trace where
  "trace0 = \<lparr>requested = [], slept = 0, tlog = []\<rparr>"

definition tlogging :: "level \<Rightarrow> string \<Rightarrow> trace \<Rightarrow> trace" where
  "tlogging l msg t = t\<lparr>tlog := tlog t @ [(l, msg)]\<rparr>"

section \<open>The fetchers\<close>

definition get_holder_info_from_solana_async :: "remote \<Rightarrow> pyval \<Rightarrow> exn + pyval" where
  "get_holder_info_from_solana_async client data_dict =
     bind_exn (py_item data_dict ''token'') (\<lambda>token.
     bind_exn (get_token_largest_accounts client token) (\<lambda>largest_account.
     bind_exn (py_item largest_account ''result'') (\<lambda>la_result.
     bind_exn (py_item la_result ''value'') (\<lambda>la_value.
     bind_exn (py_item0 la_value) (\<lambda>la_first.
     bind_exn (py_item la_first ''address'') (\<lambda>address.
     bind_exn (get_account_info_parsed client address) (\<lambda>account_info.
     bind_exn (py_item account_info ''result'') (\<lambda>ai_result.
     bind_exn (py_item ai_result ''value'') (\<lambda>ai_value.
     bind_exn (py_item ai_value ''data'') (\<lambda>ai_data.
     bind_exn (py_item ai_data ''parsed'') (\<lambda>parsed.
     py_setitem data_dict ''holders'' parsed)))))))))))"

text \<open>The loop that decodes the \<^verbatim>\<open>bytes\<close> values of the unpacked account in place; what
  does not decode, and what is not \<^verbatim>\<open>bytes\<close>, stays as it is.\<close>

definition decode_value :: "remote \<Rightarrow> pyval \<Rightarrow> pyval" where
  "decode_value client v =
     (case v of PBytes s \<Rightarrow> if utf8_valid client s then PStr s else v | _ \<Rightarrow> v)"

definition decode_items :: "remote \<Rightarrow> pyval \<Rightarrow> exn + pyval" where
  "decode_items client unpacked_data =
     (case unpacked_data of
        PDict kvs \<Rightarrow> Inr (PDict (map (\<lambda>(k, v). (k, decode_value client v)) kvs))
      | _ \<Rightarrow> Inl AttributeError)"

definition get_account_info_from_solana_async :: "remote \<Rightarrow> pyval \<Rightarrow> exn + pyval" where
  "get_account_info_from_solana_async sol_client data_dict =
     bind_exn (py_item data_dict ''token'') (\<lambda>token.
     bind_exn (get_metadata_account sol_client token) (\<lambda>metadata_account.
     bind_exn (get_account_info sol_client metadata_account) (\<lambda>data.
     bind_exn (py_item data ''result'') (\<lambda>d_result.
     bind_exn (py_item d_result ''value'') (\<lambda>d_value.
     bind_exn (py_item d_value ''data'') (\<lambda>d_data.
     bind_exn (py_item0 d_data) (\<lambda>d_first.
     bind_exn (b64decode sol_client d_first) (\<lambda>decoded_data.
     bind_exn (unpack_metadata_account sol_client decoded_data) (\<lambda>unpacked_data.
     bind_exn (decode_items sol_client unpacked_data) (\<lambda>unpacked_data.
     py_setitem data_dict ''account'' unpacked_data))))))))))"

text \<open>
  \<^verbatim>\<open>async_http_request\<close>: \<open>n\<close> is the number of requests this task has made for the URL
  so far, which is also the number of calls of the function that are open, one inside the
  \<^verbatim>\<open>async with\<close> of the other. A 429 sleeps three seconds and asks again by calling the
  function from inside itself. The source sets no bound to that, but every retry adds
  to the depth of the interpreter's stack, and the call that no longer fits raises
  \<^verbatim>\<open>RecursionError\<close>. Any other status that is not 200 is logged as an error, and control
  then falls through to the lines that log a success and return the body of the reply.
\<close>

function async_http_request ::
  "remote \<Rightarrow> pyval \<Rightarrow> nat \<Rightarrow> trace \<Rightarrow> (exn + pyval) \<times> trace" where
  "async_http_request session url n t =
     (if recursion_room session \<le> n then (Inl RecursionError, t)
      else
        let t1 = t\<lparr>requested := requested t @ [url]\<rparr> in
        case session_get session url n of
          Inl e \<Rightarrow> (Inl e, t1)
        | Inr resp \<Rightarrow>
            if status resp \<noteq> 200 then
              if status resp = 429 then
                async_http_request session url (Suc n)
                  ((tlogging DEBUG ''Got status code %s for url %s, sleeping and retrying'' t1)
                     \<lparr>slept := slept t1 + 3\<rparr>)
              else
                (json resp,
                 tlogging DEBUG ''Successful response for url %s''
                   (tlogging ERROR ''HTTP request for %s failed with status %s: %s'' t1))
            else (json resp, tlogging DEBUG ''Successful response for url %s'' t1))"
  by pat_completeness auto
termination
  by (relation "measure (\<lambda>(session, url, n, t). recursion_room session - n)") auto

declare async_http_request.simps [simp del]

text \<open>
  \<^verbatim>\<open>get_arweave_metadata\<close> changes its record before it asks, so the record comes back
  also when the request raises: the result is the outcome, the record as the task left
  it, and the trace.
\<close>

definition get_arweave_metadata ::
  "remote \<Rightarrow> pyval \<Rightarrow> (exn + unit) \<times> pyval \<times> trace" where
  "get_arweave_metadata http_client data_dict =
     (case bind_exn (py_item data_dict ''account'') (\<lambda>account.
           bind_exn (py_item account ''data'') (\<lambda>account_data.
           py_get account_data ''uri'')) of
        Inl e \<Rightarrow> (Inl e, data_dict, trace0)
      | Inr arweave_uri \<Rightarrow>
         (case bind_exn (py_get data_dict ''arweave'') (\<lambda>current.
               if current = PNone then py_setitem data_dict ''arweave'' (PDict [])
               else Inr data_dict) of
            Inl e \<Rightarrow> (Inl e, data_dict, trace0)
          | Inr data_dict1 \<Rightarrow>
              if py_truthy arweave_uri then
                (case async_http_request http_client arweave_uri 0 trace0 of
                   (Inl e, t) \<Rightarrow> (Inl e, data_dict1, t)
                 | (Inr body, t) \<Rightarrow>
                     (case py_setitem data_dict1 ''arweave'' body of
                        Inl e \<Rightarrow> (Inl e, data_dict1, t)
                      | Inr data_dict2 \<Rightarrow> (Inr (), data_dict2, t)))
              else (Inr (), data_dict1, trace0)))"

text \<open>
  The part of \<^verbatim>\<open>get_arweave_metadata\<close> that comes before its first \<^verbatim>\<open>await\<close>, which a
  task runs as soon as it is started: it reads the URI and puts the empty object into a
  field that is missing. A task that raises there has changed nothing.
\<close>

definition arweave_first_step :: "pyval \<Rightarrow> pyval" where
  "arweave_first_step data_dict =
     (case bind_exn (py_item data_dict ''account'') (\<lambda>account.
           bind_exn (py_item account ''data'') (\<lambda>account_data.
           py_get account_data ''uri'')) of
        Inl e \<Rightarrow> data_dict
      | Inr arweave_uri \<Rightarrow>
         (case bind_exn (py_get data_dict ''arweave'') (\<lambda>current.
               if current = PNone then py_setitem data_dict ''arweave'' (PDict [])
               else Inr data_dict) of
            Inl e \<Rightarrow> data_dict
          | Inr data_dict1 \<Rightarrow> data_dict1))"

definition replies_429 :: "remote \<Rightarrow> pyval \<Rightarrow> nat \<Rightarrow> bool" where
  "replies_429 session url n =
     (case session_get session url n of Inl e \<Rightarrow> False | Inr resp \<Rightarrow> status resp = 429)"

section \<open>The enrichment phases\<close>

text \<open>
  A phase makes one task for every token whose record answers \<^verbatim>\<open>None\<close> to
  \<^verbatim>\<open>.get(field)\<close>, awaits the tasks in the order in which they complete
  (\<^verbatim>\<open>asyncio.as_completed\<close>) and then saves the map. The coroutine that makes the
  tasks gives up control for the first time when it awaits the first result; by then the
  event loop has started every task, in the order of creation, and run it up to its first
  suspension (\<open>first_step\<close>; the holder and account fetchers change nothing before
  theirs). The order of completion is the scheduler's choice and a parameter \<open>sched\<close> of
  the model, which permutes the list of launched tasks. Each task owns its record and
  the remote services answer a request by what is asked, so the tasks complete one after
  the other in that order, each changing its record as the fetcher does. An exception of
  an awaited task leaves the list comprehension, the coroutine and \<^verbatim>\<open>asyncio.run\<close>,
  which cancels the tasks that have not completed: they stay where their first step left
  them. Between the moment a task fails and the moment the event loop is torn down the
  loop still turns, so some of the tasks that come next in the order of completion can
  complete unawaited: how many is the scheduler's choice too, the parameter \<open>late\<close>.
  The token map is changed in place, so a phase gives it back as it left it also when it
  raises; the lines a task logs are added when it completes. The rate limiter delays a
  task and changes nothing else, so it has no part in the model.
\<close>

type_synonym token_map = "(string \<times> pyval) list"

type_synonym task = "pyval \<Rightarrow> (exn + unit) \<times> pyval \<times> trace"

fun launch_tasks :: "string \<Rightarrow> token_map \<Rightarrow> string list \<Rightarrow> exn + string list" where
  "launch_tasks field token_data [] = Inr []"
| "launch_tasks field token_data (token # keys) =
     bind_exn (py_item (PDict token_data) token) (\<lambda>data_dict.
     bind_exn (py_get data_dict field) (\<lambda>v.
     bind_exn (launch_tasks field token_data keys) (\<lambda>tasks.
       Inr (if v = PNone then token # tasks else tasks))))"

fun start_all :: "(pyval \<Rightarrow> pyval) \<Rightarrow> string list \<Rightarrow> token_map \<Rightarrow> token_map" where
  "start_all first_step [] token_data = token_data"
| "start_all first_step (token # rest) token_data =
     start_all first_step rest
       (case map_of token_data token of
          None \<Rightarrow> token_data
        | Some data_dict \<Rightarrow> AList.update token (first_step data_dict) token_data)"

text \<open>The tasks that complete with nobody awaiting them: what they return or raise is
  lost, what they did to their records stays.\<close>

fun run_unawaited :: "task \<Rightarrow> string list \<Rightarrow> token_map \<Rightarrow> world
    \<Rightarrow> token_map \<times> world" where
  "run_unawaited task [] token_data w = (token_data, w)"
| "run_unawaited task (token # rest) token_data w =
     (case map_of token_data token of
        None \<Rightarrow> run_unawaited task rest token_data w
      | Some data_dict \<Rightarrow>
          (case task data_dict of
             (r, data_dict', t) \<Rightarrow>
               run_unawaited task rest (AList.update token data_dict' token_data)
                 (w\<lparr>logged := logged w @ tlog t\<rparr>)))"

fun await_all :: "task \<Rightarrow> nat \<Rightarrow> string list \<Rightarrow> token_map \<Rightarrow> world
    \<Rightarrow> (exn + unit) \<times> token_map \<times> world" where
  "await_all task late [] token_data w = (Inr (), token_data, w)"
| "await_all task late (token # rest) token_data w =
     (case map_of token_data token of
        None \<Rightarrow> (Inl KeyError, token_data, w)
      | Some data_dict \<Rightarrow>
          (case task data_dict of
             (Inl e, data_dict', t) \<Rightarrow>
               (case run_unawaited task (take late rest)
                       (AList.update token data_dict' token_data)
                       (w\<lparr>logged := logged w @ tlog t\<rparr>) of
                  (token_data', w') \<Rightarrow> (Inl e, token_data', w'))
           | (Inr u, data_dict', t) \<Rightarrow>
               await_all task late rest (AList.update token data_dict' token_data)
                 (w\<lparr>logged := logged w @ tlog t\<rparr>)))"

text \<open>The body shared by the three nested coroutines \<^verbatim>\<open>inner\<close>, \<^verbatim>\<open>inner\<close> and
  \<^verbatim>\<open>inner2\<close>, which differ in the field and the fetcher only. The result is the outcome,
  the token map as the coroutine left it, and the world.\<close>

definition gather_and_save :: "string \<Rightarrow> (pyval \<Rightarrow> pyval) \<Rightarrow> task
    \<Rightarrow> (string list \<Rightarrow> string list) \<Rightarrow> nat \<Rightarrow> string
    \<Rightarrow> token_map \<Rightarrow> world \<Rightarrow> (exn + unit) \<times> token_map \<times> world" where
  "gather_and_save field first_step task sched late cache_file_key token_data w =
     (case launch_tasks field token_data (map fst token_data) of
        Inl e \<Rightarrow> (Inl e, token_data, w)
      | Inr tasks \<Rightarrow>
          (case await_all task late (sched tasks) (start_all first_step tasks token_data) w of
             (Inl e, token_data1, w1) \<Rightarrow> (Inl e, token_data1, w1)
           | (Inr u, token_data1, w1) \<Rightarrow>
               (case save_request_cache cache_file_key (PDict token_data1) w1 of
                  (Inl e, w2) \<Rightarrow> (Inl e, token_data1, w2)
                | (Inr u', w2) \<Rightarrow> (Inr (), token_data1, w2))))"

definition holder_task :: "remote \<Rightarrow> task" where
  "holder_task client data_dict =
     (case get_holder_info_from_solana_async client data_dict of
        Inl e \<Rightarrow> (Inl e, data_dict, trace0)
      | Inr data_dict' \<Rightarrow> (Inr (), data_dict', trace0))"

definition account_task :: "remote \<Rightarrow> task" where
  "account_task sol_client data_dict =
     (case get_account_info_from_solana_async sol_client data_dict of
        Inl e \<Rightarrow> (Inl e, data_dict, trace0)
      | Inr data_dict' \<Rightarrow> (Inr (), data_dict', trace0))"

definition populate_holders_inner :: "remote \<Rightarrow> (string list \<Rightarrow> string list) \<Rightarrow> nat
    \<Rightarrow> string \<Rightarrow> token_map \<Rightarrow> world \<Rightarrow> (exn + unit) \<times> token_map \<times> world" where
  "populate_holders_inner client sched late cache_file_key token_data w =
     gather_and_save ''holders'' (\<lambda>data_dict. data_dict) (holder_task client) sched late
       cache_file_key token_data w"

definition populate_holders_details_async :: "remote \<Rightarrow> (string list \<Rightarrow> string list) \<Rightarrow> nat
    \<Rightarrow> token_map \<Rightarrow> string \<Rightarrow> world \<Rightarrow> (exn + unit) \<times> token_map \<times> world" where
  "populate_holders_details_async client sched late all_token_data cache_file_key w =
     (case populate_holders_inner client sched late cache_file_key all_token_data
             (emit INFO ''\<newline>Populating holders details...'' w) of
        (Inl e, result, w1) \<Rightarrow> (Inl e, result, w1)
      | (Inr u, result, w1) \<Rightarrow>
          (case save_request_cache cache_file_key (PDict result) w1 of
             (Inl e, w2) \<Rightarrow> (Inl e, result, w2)
           | (Inr u', w2) \<Rightarrow> (Inr (), result, emit INFO ''--- %s seconds ---'' w2)))"

definition populate_account_inner :: "remote \<Rightarrow> (string list \<Rightarrow> string list) \<Rightarrow> nat
    \<Rightarrow> string \<Rightarrow> token_map \<Rightarrow> world \<Rightarrow> (exn + unit) \<times> token_map \<times> world" where
  "populate_account_inner client sched late cache_file_key token_data w =
     gather_and_save ''account'' (\<lambda>data_dict. data_dict) (account_task client) sched late
       cache_file_key token_data w"

definition populate_account_inner2 :: "remote \<Rightarrow> (string list \<Rightarrow> string list) \<Rightarrow> nat
    \<Rightarrow> string \<Rightarrow> token_map \<Rightarrow> world \<Rightarrow> (exn + unit) \<times> token_map \<times> world" where
  "populate_account_inner2 client sched late cache_file_key token_data w =
     gather_and_save ''arweave'' arweave_first_step (get_arweave_metadata client) sched late
       cache_file_key token_data w"

text \<open>The two runs of \<^verbatim>\<open>populate_account_details_async\<close> have a scheduler each:
  \<open>sched\<close> and \<open>late\<close> for the first, \<open>sched2\<close> and \<open>late2\<close> for the second.\<close>

definition populate_account_details_async :: "remote \<Rightarrow> (string list \<Rightarrow> string list) \<Rightarrow> nat
    \<Rightarrow> (string list \<Rightarrow> string list) \<Rightarrow> nat \<Rightarrow> token_map \<Rightarrow> string \<Rightarrow> world
    \<Rightarrow> (exn + unit) \<times> token_map \<times> world" where
  "populate_account_details_async client sched late sched2 late2 all_token_data cache_file_key w =
     (case populate_account_inner client sched late cache_file_key all_token_data
             (emit INFO ''\<newline>Populating account details...'' w) of
        (Inl e, token_data1, w1) \<Rightarrow> (Inl e, token_data1, w1)
      | (Inr u, token_data1, w1) \<Rightarrow>
          (case populate_account_inner2 client sched2 late2 cache_file_key token_data1
                  (emit INFO ''\<newline>Populating token metadata details...''
                     (emit INFO ''--- %s seconds ---'' w1)) of
             (Inl e, result, w2) \<Rightarrow> (Inl e, result, w2)
           | (Inr u', result, w2) \<Rightarrow>
               (case save_request_cache cache_file_key (PDict result) w2 of
                  (Inl e, w3) \<Rightarrow> (Inl e, result, w3)
                | (Inr u'', w3) \<Rightarrow> (Inr (), result, emit INFO ''--- %s seconds ---'' w3))))"

text \<open>A scheduler permutes the tasks it is given.\<close>

definition is_schedule :: "(string list \<Rightarrow> string list) \<Rightarrow> bool" where
  "is_schedule sched = (\<forall>ts. distinct ts \<longrightarrow> distinct (sched ts) \<and> set (sched ts) = set ts)"

text \<open>The records a phase has nothing to do for: dicts that hold the field with a value
  other than \<^verbatim>\<open>None\<close>.\<close>

definition populated :: "string \<Rightarrow> pyval \<Rightarrow> bool" where
  "populated field data_dict =
     (case data_dict of
        PDict kvs \<Rightarrow> (case map_of kvs field of None \<Rightarrow> False | Some v \<Rightarrow> v \<noteq> PNone)
      | _ \<Rightarrow> False)"

text \<open>The records a phase has to fetch for, in the words of the data model: dicts in which
  the field is absent or holds \<^verbatim>\<open>None\<close>; and the tokens that have such a record, in the
  order of the map.\<close>

definition unfetched :: "string \<Rightarrow> pyval \<Rightarrow> bool" where
  "unfetched field data_dict =
     (case data_dict of
        PDict kvs \<Rightarrow> (case map_of kvs field of None \<Rightarrow> True | Some v \<Rightarrow> v = PNone)
      | _ \<Rightarrow> False)"

definition selected :: "string \<Rightarrow> token_map \<Rightarrow> string list" where
  "selected field token_data =
     filter (\<lambda>token. case map_of token_data token of
                        None \<Rightarrow> False
                      | Some data_dict \<Rightarrow> unfetched field data_dict)
       (map fst token_data)"

definition is_dict :: "pyval \<Rightarrow> bool" where
  "is_dict v = (case v of PDict kvs \<Rightarrow> True | _ \<Rightarrow> False)"

text \<open>A token whose task raises when it is run on the record the map holds for it.\<close>

definition fails :: "task \<Rightarrow> token_map \<Rightarrow> string \<Rightarrow> bool" where
  "fails task token_data token =
     (case map_of token_data token of
        None \<Rightarrow> False
      | Some data_dict \<Rightarrow>
          (case task data_dict of (Inl e, d, t) \<Rightarrow> True | (Inr u, d, t) \<Rightarrow> False))"

section \<open>The aggregators\<close>

text \<open>
  The counters are dicts keyed by values of the documents. Python compares dict keys by
  value, across \<^verbatim>\<open>bool\<close>, \<^verbatim>\<open>int\<close> and \<^verbatim>\<open>float\<close> (\<^verbatim>\<open>True == 1 == 1.0\<close>), and refuses a list
  or a dict as a key; \<open>py_hash_key\<close> gives the key a value stands for. A counter keeps
  the order of insertion.
\<close>

datatype pykey = KNone | KNum rat | KStr string | KBytes string

fun py_hash_key :: "pyval \<Rightarrow> exn + pykey" where
  "py_hash_key PNone = Inr KNone"
| "py_hash_key (PBool b) = Inr (KNum (if b then 1 else 0))"
| "py_hash_key (PInt i) = Inr (KNum (of_int i))"
| "py_hash_key (PFloat r) = Inr (KNum r)"
| "py_hash_key (PStr s) = Inr (KStr s)"
| "py_hash_key (PBytes s) = Inr (KBytes s)"
| "py_hash_key (PList xs) = Inl TypeError"
| "py_hash_key (PDict kvs) = Inl TypeError"

text \<open>\<^verbatim>\<open>if not counts.get(k): counts[k] = 0\<close> and then \<^verbatim>\<open>counts[k] += 1\<close>.\<close>

definition zero_if_missing :: "'k \<Rightarrow> ('k \<times> int) list \<Rightarrow> ('k \<times> int) list" where
  "zero_if_missing k counts =
     (if (case map_of counts k of None \<Rightarrow> True | Some c \<Rightarrow> c = 0)
      then AList.update k 0 counts else counts)"

definition increment :: "'k \<Rightarrow> ('k \<times> int) list \<Rightarrow> exn + ('k \<times> int) list" where
  "increment k counts =
     (case map_of counts k of
        None \<Rightarrow> Inl KeyError
      | Some c \<Rightarrow> Inr (AList.update k (c + 1) counts))"

definition UNKNOWN_ADDRESS :: string where
  "UNKNOWN_ADDRESS = ''UNKNOWN_ADDRESS''"

text \<open>\<^verbatim>\<open>token_holders.get('info').get('owner') or "UNKNOWN_ADDRESS"\<close>.\<close>

definition holder_address_of :: "pyval \<Rightarrow> exn + pyval" where
  "holder_address_of token_holders =
     bind_exn (py_get token_holders ''info'') (\<lambda>info.
     bind_exn (py_get info ''owner'') (\<lambda>owner.
     Inr (py_or owner (PStr UNKNOWN_ADDRESS))))"

fun holder_counts_loop :: "token_map \<Rightarrow> (pykey \<times> int) list \<Rightarrow> exn + (pykey \<times> int) list" where
  "holder_counts_loop [] counts = Inr counts"
| "holder_counts_loop ((token, data_dict) # rest) counts =
     bind_exn (py_item data_dict ''holders'') (\<lambda>token_holders.
     bind_exn (holder_address_of token_holders) (\<lambda>holder_address.
     bind_exn (py_hash_key holder_address) (\<lambda>k.
     bind_exn (increment k (zero_if_missing k counts)) (\<lambda>counts'.
     holder_counts_loop rest counts'))))"

text \<open>\<^verbatim>\<open>holder_counts\<close> hands the number of tokens and the counter to
  \<^verbatim>\<open>print_biggest_holders\<close>; the model returns the two.\<close>

definition holder_counts :: "token_map \<Rightarrow> exn + (int \<times> (pykey \<times> int) list)" where
  "holder_counts all_token_data =
     bind_exn (holder_counts_loop all_token_data []) (\<lambda>counts.
     Inr (int (length all_token_data), counts))"

text \<open>\<^verbatim>\<open>for attribute in attributes\<close>: a list gives its elements, a dict its keys, a
  string its characters, bytes their codes; nothing else can be iterated.\<close>

fun py_iter :: "pyval \<Rightarrow> exn + pyval list" where
  "py_iter (PList xs) = Inr xs"
| "py_iter (PDict kvs) = Inr (map (\<lambda>kv. PStr (fst kv)) kvs)"
| "py_iter (PStr s) = Inr (map (\<lambda>c. PStr [c]) s)"
| "py_iter (PBytes s) = Inr (map (\<lambda>c. PInt (of_char c)) s)"
| "py_iter _ = Inl TypeError"

type_synonym trait_counts = "(pykey \<times> (pykey \<times> int) list) list"

text \<open>The value an attribute is counted under: \<^verbatim>\<open>None\<close> counts as the empty string.\<close>

definition counted_value :: "pyval \<Rightarrow> pyval" where
  "counted_value v = (if v \<noteq> PNone then v else PStr [])"

definition count_attribute :: "pyval \<Rightarrow> trait_counts \<Rightarrow> exn + trait_counts" where
  "count_attribute attribute attribute_counts =
     bind_exn (py_item attribute ''trait_type'') (\<lambda>trait_type.
     bind_exn (py_item attribute ''value'') (\<lambda>v.
     bind_exn (py_hash_key trait_type) (\<lambda>tk.
       let attribute_counts1 =
             (if (case map_of attribute_counts tk of None \<Rightarrow> True | Some d \<Rightarrow> d = [])
              then AList.update tk [] attribute_counts else attribute_counts)
       in case map_of attribute_counts1 tk of
            None \<Rightarrow> Inl KeyError
          | Some d \<Rightarrow>
              bind_exn (py_hash_key (counted_value v)) (\<lambda>vk.
              bind_exn (increment vk (zero_if_missing vk d)) (\<lambda>d'.
              Inr (AList.update tk d' attribute_counts1))))))"

fun count_attributes :: "pyval list \<Rightarrow> trait_counts \<Rightarrow> exn + trait_counts" where
  "count_attributes [] attribute_counts = Inr attribute_counts"
| "count_attributes (attribute # rest) attribute_counts =
     bind_exn (count_attribute attribute attribute_counts) (\<lambda>attribute_counts'.
     count_attributes rest attribute_counts')"

fun attribute_loop :: "token_map \<Rightarrow> int \<Rightarrow> trait_counts \<Rightarrow> log_entry list
    \<Rightarrow> exn + (int \<times> trait_counts \<times> log_entry list)" where
  "attribute_loop [] tokens_with_attributes_total attribute_counts lg =
     Inr (tokens_with_attributes_total, attribute_counts, lg)"
| "attribute_loop ((token, data_dict) # rest) tokens_with_attributes_total attribute_counts lg =
     bind_exn (py_item data_dict ''arweave'') (\<lambda>arweave_data.
     bind_exn (py_get arweave_data ''attributes'') (\<lambda>attributes.
       if py_truthy attributes then
         bind_exn (py_iter attributes) (\<lambda>items.
         bind_exn (count_attributes items attribute_counts) (\<lambda>attribute_counts'.
         attribute_loop rest (tokens_with_attributes_total + 1) attribute_counts' lg))
       else
         attribute_loop rest tokens_with_attributes_total attribute_counts
           (lg @ [(INFO, ''Token %s has no attributes'')])))"

text \<open>\<^verbatim>\<open>attribute_distribution\<close> hands the number of tokens with attributes and the
  nested counter to \<^verbatim>\<open>print_trait_frequency\<close>; the model returns the two and the log.\<close>

definition attribute_distribution :: "token_map \<Rightarrow> exn + (int \<times> trait_counts \<times> log_entry list)" where
  "attribute_distribution all_token_data = attribute_loop all_token_data 0 [] []"

section \<open>The snapshot\<close>

text \<open>\<^verbatim>\<open>str.find\<close> of one character: the index of its first occurrence, or \<open>-1\<close>.\<close>

fun py_find :: "string \<Rightarrow> char \<Rightarrow> int" where
  "py_find [] c = -1"
| "py_find (x # xs) c =
     (if x = c then 0 else (let i = py_find xs c in if i < 0 then -1 else i + 1))"

text \<open>\<^verbatim>\<open>s[start::]\<close>: a negative start counts from the end.\<close>

definition py_slice_from :: "string \<Rightarrow> int \<Rightarrow> string" where
  "py_slice_from s start =
     (if start < 0 then drop (nat (int (length s) + start)) s else drop (nat start) s)"

text \<open>\<^verbatim>\<open>token_name[token_name.find('#') + 1::]\<close>: only a \<^verbatim>\<open>str\<close> has a \<^verbatim>\<open>find\<close> that
  takes a \<^verbatim>\<open>str\<close>. The character sought is ASCII, so cutting the UTF-8 text after its
  first occurrence gives the text of the suffix Python cuts.\<close>

fun number_of_name :: "pyval \<Rightarrow> exn + pyval" where
  "number_of_name (PStr token_name) =
     Inr (PStr (py_slice_from token_name (py_find token_name (CHR ''#'') + 1)))"
| "number_of_name (PBytes s) = Inl TypeError"
| "number_of_name _ = Inl AttributeError"

record csv_row =
  Number :: pyval
  TokenName :: pyval
  Token :: pyval
  HolderAddress :: pyval
  TotalHeld :: pyval

definition snapshot_row :: "string \<Rightarrow> pyval \<Rightarrow> exn + csv_row" where
  "snapshot_row token data_dict =
     bind_exn (py_item data_dict ''holders'') (\<lambda>token_holders.
     bind_exn (py_item data_dict ''account'') (\<lambda>account_data.
     bind_exn (holder_address_of token_holders) (\<lambda>holder_address.
     bind_exn (py_get account_data ''data'') (\<lambda>d.
     bind_exn (py_get d ''name'') (\<lambda>token_name.
     bind_exn (number_of_name token_name) (\<lambda>num.
     bind_exn (py_get token_holders ''info'') (\<lambda>info.
     bind_exn (py_get info ''tokenAmount'') (\<lambda>token_amount.
     bind_exn (py_get token_amount ''amount'') (\<lambda>amount.
     Inr \<lparr>Number = num, TokenName = token_name, Token = PStr token,
          HolderAddress = holder_address, TotalHeld = amount\<rparr>)))))))))"

text \<open>\<^verbatim>\<open>holder_snapshot\<close> builds the rows in the order of the map and hands them to
  pandas; the model returns the rows.\<close>

fun holder_snapshot :: "token_map \<Rightarrow> exn + csv_row list" where
  "holder_snapshot [] = Inr []"
| "holder_snapshot ((token, data_dict) # rest) =
     bind_exn (snapshot_row token data_dict) (\<lambda>row.
     bind_exn (holder_snapshot rest) (\<lambda>rows. Inr (row # rows)))"

text \<open>The claim's words for the Number column: what follows the first \<open>#\<close>, or the
  whole name when it has none.\<close>

definition after_first_hash :: "string \<Rightarrow> string" where
  "after_first_hash name =
     (if CHR ''#'' \<in> set name then tl (dropWhile (\<lambda>c. c \<noteq> CHR ''#'') name) else name)"

section \<open>The report of the biggest holders\<close>

definition MARKETPLACE_WALLETS :: "(string \<times> string) list" where
  "MARKETPLACE_WALLETS =
     [(''GUfCR9mK6azb9vcpsxgXyj7XRPAKJd4KMHTTVvtncGgp'', ''MagicEden''),
      (''3D49QorJyNaL4rcpiynbuS3pRH4Y7EXEM6v6ZGaqfFGK'', ''Solanart''),
      (''4pUQS4Jo2dsfWzt3VgHXy3H6RYnEDd11oWPiaM2rdAPw'', ''AlphaArt''),
      (''F4ghBzHFNgJxV4wEQDchU5i7n4XWWMBSaq7CuswGiVsr'', ''DigitalEyes'')]"

text \<open>\<^verbatim>\<open>sorted(xs, reverse=reverse)\<close> on pairs, which Python compares component by
  component; a reverse sort reverses the list, sorts it stably and reverses the result.
  \<^verbatim>\<open>dict(pairs)\<close> inserts the pairs one after the other.\<close>

definition py_sorted :: "('a::linorder) list \<Rightarrow> bool \<Rightarrow> 'a list" where
  "py_sorted xs reverse = (if reverse then rev (sort (rev xs)) else sort xs)"

definition py_dict :: "('k \<times> 'v) list \<Rightarrow> ('k \<times> 'v) list" where
  "py_dict pairs = foldl (\<lambda>d kv. AList.update (fst kv) (snd kv) d) [] pairs"

definition sort_dict_by_values :: "(string \<times> int) list \<Rightarrow> bool \<Rightarrow> (string \<times> int) list" where
  "sort_dict_by_values dictionary reverse =
     (let holder_list = py_sorted (map (\<lambda>kv. (snd kv, fst kv)) dictionary) reverse
      in py_dict (map (\<lambda>vk. (snd vk, fst vk)) holder_list))"

text \<open>\<^verbatim>\<open>str.format\<close> of an \<^verbatim>\<open>int\<close>: its decimal digits.\<close>

fun digits :: "nat \<Rightarrow> string" where
  "digits n =
     (if n < 10 then [''0123456789'' ! n]
      else digits (n div 10) @ [''0123456789'' ! (n mod 10)])"

declare digits.simps [simp del]

definition str_int :: "int \<Rightarrow> string" where
  "str_int i = (if i < 0 then CHR ''-'' # digits (nat (- i)) else digits (nat i))"

definition holder_line :: "string \<times> int \<Rightarrow> string" where
  "holder_line hc =
     (let holder = fst hc; count = snd hc;
          marketplace_suffix =
            (case map_of MARKETPLACE_WALLETS holder of
               Some label \<Rightarrow> '' ('' @ label @ '')''
             | None \<Rightarrow> [])
      in holder @ '': '' @ str_int count @ marketplace_suffix)"

text \<open>\<^verbatim>\<open>print_biggest_holders\<close>: the strings it prints, one for each call of
  \<^verbatim>\<open>print\<close>.\<close>

definition print_biggest_holders :: "int \<Rightarrow> (string \<times> int) list \<Rightarrow> string list" where
  "print_biggest_holders tokens_total counts =
     (let counts' = sort_dict_by_values counts True
      in [''\<newline>'',
          ''Total tokens: '' @ str_int tokens_total,
          ''\<newline>Biggest holders:\<newline>----------'']
         @ map holder_line counts')"

section \<open>What the aggregators read off a record\<close>

text \<open>The count a counter holds for a key, and the key a record is counted under by
  \<^verbatim>\<open>holder_counts\<close>: one turn of its loop up to the counter.\<close>

definition count_at :: "('k \<times> int) list \<Rightarrow> 'k \<Rightarrow> int" where
  "count_at counts k = (case map_of counts k of None \<Rightarrow> 0 | Some c \<Rightarrow> c)"

definition holder_key :: "pyval \<Rightarrow> exn + pykey" where
  "holder_key data_dict =
     bind_exn (py_item data_dict ''holders'') (\<lambda>token_holders.
     bind_exn (holder_address_of token_holders) py_hash_key)"

text \<open>What \<^verbatim>\<open>attribute_distribution\<close> counts, read off a record: whether its
  \<^verbatim>\<open>arweave.attributes\<close> is truthy, the entries it then iterates over, and the keys an
  entry is counted under.\<close>

definition record_attributes :: "pyval \<Rightarrow> exn + pyval" where
  "record_attributes data_dict =
     bind_exn (py_item data_dict ''arweave'') (\<lambda>arweave_data.
     py_get arweave_data ''attributes'')"

definition has_attributes :: "pyval \<Rightarrow> bool" where
  "has_attributes data_dict =
     (case record_attributes data_dict of Inr attributes \<Rightarrow> py_truthy attributes | Inl e \<Rightarrow> False)"

definition attributes_of :: "pyval \<Rightarrow> pyval list" where
  "attributes_of data_dict =
     (case record_attributes data_dict of
        Inr attributes \<Rightarrow>
          if py_truthy attributes
          then (case py_iter attributes of Inr items \<Rightarrow> items | Inl e \<Rightarrow> [])
          else []
      | Inl e \<Rightarrow> [])"

definition all_attributes :: "token_map \<Rightarrow> pyval list" where
  "all_attributes all_token_data = concat (map (\<lambda>tr. attributes_of (snd tr)) all_token_data)"

definition trait_key :: "pyval \<Rightarrow> exn + pykey" where
  "trait_key attribute = bind_exn (py_item attribute ''trait_type'') py_hash_key"

definition value_key :: "pyval \<Rightarrow> exn + pykey" where
  "value_key attribute =
     bind_exn (py_item attribute ''value'') (\<lambda>v. py_hash_key (counted_value v))"

definition trait_dict :: "trait_counts \<Rightarrow> pykey \<Rightarrow> (pykey \<times> int) list" where
  "trait_dict attribute_counts tk =
     (case map_of attribute_counts tk of None \<Rightarrow> [] | Some d \<Rightarrow> d)"

text \<open>The name \<^verbatim>\<open>holder_snapshot\<close> reads for a record:
  \<^verbatim>\<open>data_dict['account'].get('data').get('name')\<close>.\<close>

definition token_name_of :: "pyval \<Rightarrow> exn + pyval" where
  "token_name_of data_dict =
     bind_exn (py_item data_dict ''account'') (\<lambda>account_data.
     bind_exn (py_get account_data ''data'') (\<lambda>d.
     py_get d ''name''))"

section \<open>Fixtures for concrete runs\<close>

text \<open>A remote where every call fails, to be overridden field by field; a working
  directory with no file in it where everything can be written; one where the cache
  directory has no subdirectory \<^verbatim>\<open>data\<close>, so that a file in it cannot be opened; one
  where nothing can be written; and one where files can be written and not read.\<close>

definition offline :: remote where
  "offline =
     \<lparr>get_token_largest_accounts = (\<lambda>a. Inl ClientError),
      get_account_info_parsed = (\<lambda>a. Inl ClientError),
      get_account_info = (\<lambda>a. Inl ClientError),
      get_metadata_account = (\<lambda>a. Inl ClientError),
      b64decode = (\<lambda>a. Inl ClientError),
      unpack_metadata_account = (\<lambda>a. Inl ClientError),
      utf8_valid = (\<lambda>s. True),
      session_get = (\<lambda>url n. Inl ClientError),
      recursion_room = 977\<rparr>"

definition fresh_world :: world where
  "fresh_world =
     \<lparr>disk = \<lparr>files = Map.empty, mkdir_ok = True, writable = (\<lambda>p. True),
              readable = (\<lambda>p. True)\<rparr>,
      logged = []\<rparr>"

definition flat_world :: world where
  "flat_world =
     \<lparr>disk = \<lparr>files = Map.empty, mkdir_ok = True,
              writable = (\<lambda>p. p \<noteq> ''cache/data/tokens.txt_cache.json''),
              readable = (\<lambda>p. True)\<rparr>,
      logged = []\<rparr>"

definition readonly_world :: world where
  "readonly_world =
     \<lparr>disk = \<lparr>files = Map.empty, mkdir_ok = False, writable = (\<lambda>p. False),
              readable = (\<lambda>p. True)\<rparr>,
      logged = []\<rparr>"

definition unreadable_world :: world where
  "unreadable_world =
     \<lparr>disk = \<lparr>files = Map.empty, mkdir_ok = True, writable = (\<lambda>p. True),
              readable = (\<lambda>p. False)\<rparr>,
      logged = []\<rparr>"

text \<open>A server that answers 429 once and then 200, one that answers 429 every time, one
  that answers 404 with a JSON body, and a record with a URI.\<close>

definition once_429 :: remote where
  "once_429 = offline\<lparr>session_get := (\<lambda>url n.
      if n = 0 then Inr \<lparr>status = 429, json = Inl JSONDecodeError\<rparr>
      else Inr \<lparr>status = 200, json = Inr (PDict [(''attributes'', PList [])])\<rparr>)\<rparr>"

definition token_with_uri :: pyval where
  "token_with_uri = PDict [(''token'', PStr ''tok''),
      (''account'', PDict [(''data'', PDict [(''uri'', PStr ''https://arweave.net/x'')])])]"

definition always_429 :: remote where
  "always_429 = offline\<lparr>session_get := (\<lambda>url n.
      Inr \<lparr>status = 429, json = Inl JSONDecodeError\<rparr>)\<rparr>"

definition not_found :: remote where
  "not_found = offline\<lparr>session_get := (\<lambda>url n.
      Inr \<lparr>status = 404, json = Inr (PDict [(''message'', PStr ''Not Found'')])\<rparr>)\<rparr>"

text \<open>A ledger that cannot be reached for one token and answers for the others, one
  that knows no account for any token, and maps of tokens to run the phases and the
  aggregators on.\<close>

definition holder_reply :: pyval where
  "holder_reply = PDict [(''result'', PDict [(''value'', PDict [(''data'',
     PDict [(''parsed'', PDict [(''info'', PDict [(''owner'', PStr ''owner1''),
        (''tokenAmount'', PDict [(''amount'', PStr ''1'')])])])])])])]"

definition flaky :: remote where
  "flaky = offline
     \<lparr>get_token_largest_accounts := (\<lambda>token.
        if token = PStr ''bad'' then Inl ClientError
        else Inr (PDict [(''result'',
               PDict [(''value'', PList [PDict [(''address'', PStr ''acc'')]])])])),
      get_account_info_parsed := (\<lambda>address. Inr holder_reply)\<rparr>"

definition two_tokens :: token_map where
  "two_tokens = [(''good'', PDict [(''token'', PStr ''good'')]),
                 (''bad'', PDict [(''token'', PStr ''bad'')])]"

text \<open>Two records that have the URI of their metadata and no \<^verbatim>\<open>arweave\<close> field.\<close>

definition record_a :: pyval where
  "record_a = PDict [(''token'', PStr ''a''),
      (''account'', PDict [(''data'', PDict [(''uri'', PStr ''https://arweave.net/a'')])])]"

definition record_b :: pyval where
  "record_b = PDict [(''token'', PStr ''b''),
      (''account'', PDict [(''data'', PDict [(''uri'', PStr ''https://arweave.net/b'')])])]"

definition two_with_uri :: token_map where
  "two_with_uri = [(''a'', record_a), (''b'', record_b)]"

text \<open>A map with a record whose \<^verbatim>\<open>holders\<close> field is the empty object and one that
  has no such field.\<close>

definition empty_and_missing :: token_map where
  "empty_and_missing = [(''t1'', PDict [(''token'', PStr ''t1''), (''holders'', PDict [])]),
                        (''t2'', PDict [(''token'', PStr ''t2'')])]"

definition no_accounts :: remote where
  "no_accounts = offline
     \<lparr>get_token_largest_accounts := (\<lambda>token.
        Inr (PDict [(''result'', PDict [(''value'', PList [])])]))\<rparr>"

definition hat_and_eyes :: token_map where
  "hat_and_eyes = [(''t1'', PDict [(''token'', PStr ''t1''),
     (''arweave'', PDict [(''attributes'', PList
        [PDict [(''trait_type'', PStr ''Hat''), (''value'', PStr ''Cap'')],
         PDict [(''trait_type'', PStr ''Eyes''), (''value'', PNone)]])])]),
     (''t2'', PDict [(''token'', PStr ''t2''), (''arweave'', PDict [])])]"

definition hat_twice :: token_map where
  "hat_twice = [(''t'', PDict [(''token'', PStr ''t''),
     (''arweave'', PDict [(''attributes'', PList
        [PDict [(''trait_type'', PStr ''Hat''), (''value'', PStr ''Cap'')],
         PDict [(''trait_type'', PStr ''Hat''), (''value'', PNone)]])])])]"

definition two_names :: token_map where
  "two_names =
     [(''tok1'', PDict [(''token'', PStr ''tok1''),
        (''holders'', PDict [(''info'', PDict [(''owner'', PStr ''owner1''),
            (''tokenAmount'', PDict [(''amount'', PStr ''1'')])])]),
        (''account'', PDict [(''data'', PDict [(''name'', PStr ''Token #1'')])])]),
      (''tok2'', PDict [(''token'', PStr ''tok2''),
        (''holders'', PDict [(''info'', PDict [(''owner'', PStr ''owner1''),
            (''tokenAmount'', PDict [(''amount'', PStr ''1'')])])]),
        (''account'', PDict [(''data'', PDict [(''name'', PStr ''Genesis'')])])])]"

text \<open>The scenario of the report: three wallets of the table and an address that is
  not in it.\<close>

definition scenario_counts :: "(string \<times> int) list" where
  "scenario_counts =
     [(''holder_A'', 50),
      (''3D49QorJyNaL4rcpiynbuS3pRH4Y7EXEM6v6ZGaqfFGK'', 1),
      (''4pUQS4Jo2dsfWzt3VgHXy3H6RYnEDd11oWPiaM2rdAPw'', 2),
      (''F4ghBzHFNgJxV4wEQDchU5i7n4XWWMBSaq7CuswGiVsr'', 4)]"

section \<open>The request cache\<close>

lemma load_body_raises:
  "load_body k w = (Inl e, w') \<Longrightarrow> (e = OSError \<or> e = JSONDecodeError) \<and> w' = w"
  by (auto simp: load_body_def split: option.splits file_content.splits if_splits)

lemma save_body_raises:
  "save_body k m w = (Inl e, w') \<Longrightarrow> e = OSError \<or> e = TypeError"
  by (auto simp: save_body_def Let_def split: if_splits)

lemma save_request_cache_returns:
  "\<exists>w'. save_request_cache k m w = (Inr (), w') \<and> mkdir_ok (disk w') = mkdir_ok (disk w)
      \<and> writable (disk w') = writable (disk w) \<and> readable (disk w') = readable (disk w)"
  by (simp add: save_request_cache_def save_body_def Let_def emit_def)

lemma load_request_cache_result:
  "fst (load_request_cache k w) =
     (if readable (disk w) (cache_path k)
      then (case files (disk w) (cache_path k) of Some (Json v) \<Rightarrow> Inr v | _ \<Rightarrow> Inr (PDict []))
      else Inr (PDict []))"
  by (simp add: load_request_cache_def load_body_def split: option.splits file_content.splits)

text \<open>
  Claim C7. Whatever the cache file and the directory are like, \<^verbatim>\<open>load_request_cache\<close>
  returns: when the file cannot be opened or is no JSON document it returns the empty
  map and logs the failure. \<^verbatim>\<open>save_request_cache\<close> returns as well: when the directory
  cannot be made, the file cannot be opened for writing or the map cannot be serialised,
  it logs a warning.
\<close>

theorem cache_never_raises:
  "(\<exists>v w'. load_request_cache k w = (Inr v, w'))
   \<and> (\<not> readable (disk w) (cache_path k)
        \<or> (\<forall>v. files (disk w) (cache_path k) \<noteq> Some (Json v)) \<longrightarrow>
        load_request_cache k w
          = (Inr (PDict []), emit DEBUG ''Unable to load cache file %s: %s'' w))
   \<and> (\<exists>w'. save_request_cache k m w = (Inr (), w'))
   \<and> (\<not> mkdir_ok (disk w) \<or> \<not> writable (disk w) (cache_path k) \<or> \<not> json_serializable m \<longrightarrow>
        (\<exists>w'. save_request_cache k m w = (Inr (), w')
            \<and> logged w' = logged w @ [(WARNING, ''Unable to write cache file %s: %s'')]))"
proof (intro conjI)
  show "\<exists>v w'. load_request_cache k w = (Inr v, w')"
    by (auto simp: load_request_cache_def load_body_def split: option.splits file_content.splits)
  show "\<not> readable (disk w) (cache_path k)
        \<or> (\<forall>v. files (disk w) (cache_path k) \<noteq> Some (Json v)) \<longrightarrow>
        load_request_cache k w
          = (Inr (PDict []), emit DEBUG ''Unable to load cache file %s: %s'' w)"
    by (auto simp: load_request_cache_def load_body_def split: option.splits file_content.splits)
  show "\<exists>w'. save_request_cache k m w = (Inr (), w')"
    by (auto simp: save_request_cache_def save_body_def Let_def)
  show "\<not> mkdir_ok (disk w) \<or> \<not> writable (disk w) (cache_path k) \<or> \<not> json_serializable m \<longrightarrow>
        (\<exists>w'. save_request_cache k m w = (Inr (), w')
            \<and> logged w' = logged w @ [(WARNING, ''Unable to write cache file %s: %s'')])"
    by (auto simp: save_request_cache_def save_body_def Let_def emit_def)
qed

theorem cache_never_raises_witness:
  "load_request_cache ''tokens.txt'' readonly_world
     = (Inr (PDict []), emit DEBUG ''Unable to load cache file %s: %s'' readonly_world)
   \<and> (\<exists>w'. save_request_cache ''tokens.txt'' (PDict []) readonly_world = (Inr (), w')
         \<and> logged w' = [(WARNING, ''Unable to write cache file %s: %s'')])"
  using cache_never_raises [of "''tokens.txt''" readonly_world "PDict []"]
  by (simp add: readonly_world_def)

text \<open>
  Claim C3, amended. When the cache directory can be made, the cache file can be opened
  for writing and then for reading, and the map holds no \<^verbatim>\<open>bytes\<close>,
  \<^verbatim>\<open>save_request_cache\<close> followed by \<^verbatim>\<open>load_request_cache\<close> with the same key gives the
  map back: the same tokens, the same fields, the same values (the values of the model
  are those of a JSON document, with string keys, so that no coercion is left to
  happen). Otherwise the save or the load fails and the failure is swallowed. When the
  directory cannot be made or the file cannot be opened for writing, the cache is left
  as it was and the load returns what it returned before the save. When the map holds
  \<^verbatim>\<open>bytes\<close>, the file is left cut short and the load returns the empty map. When the
  file cannot be opened for reading, the load returns the empty map.
\<close>

theorem save_load_roundtrip:
  "(mkdir_ok (disk w) \<and> writable (disk w) (cache_path k) \<and> readable (disk w) (cache_path k)
      \<and> json_serializable m \<longrightarrow>
      fst (save_request_cache k m w) = Inr ()
      \<and> fst (load_request_cache k (snd (save_request_cache k m w))) = Inr m)
   \<and> (\<not> mkdir_ok (disk w) \<or> \<not> writable (disk w) (cache_path k) \<longrightarrow>
      fst (save_request_cache k m w) = Inr ()
      \<and> disk (snd (save_request_cache k m w)) = disk w
      \<and> fst (load_request_cache k (snd (save_request_cache k m w)))
          = fst (load_request_cache k w))
   \<and> (mkdir_ok (disk w) \<and> writable (disk w) (cache_path k) \<and> \<not> json_serializable m \<longrightarrow>
      fst (save_request_cache k m w) = Inr ()
      \<and> fst (load_request_cache k (snd (save_request_cache k m w))) = Inr (PDict []))
   \<and> (\<not> readable (disk w) (cache_path k) \<longrightarrow>
      fst (load_request_cache k (snd (save_request_cache k m w))) = Inr (PDict []))"
proof (intro conjI impI)
  assume "mkdir_ok (disk w) \<and> writable (disk w) (cache_path k)
      \<and> readable (disk w) (cache_path k) \<and> json_serializable m"
  then show "fst (save_request_cache k m w) = Inr ()"
    and "fst (load_request_cache k (snd (save_request_cache k m w))) = Inr m"
    by (simp_all add: load_request_cache_result)
      (simp_all add: save_request_cache_def save_body_def Let_def emit_def)
next
  assume "\<not> mkdir_ok (disk w) \<or> \<not> writable (disk w) (cache_path k)"
  then have unchanged: "disk (snd (save_request_cache k m w)) = disk w"
    by (auto simp: save_request_cache_def save_body_def Let_def emit_def)
  show "fst (save_request_cache k m w) = Inr ()"
    using save_request_cache_returns [of k m w] by auto
  show "disk (snd (save_request_cache k m w)) = disk w"
    by (rule unchanged)
  show "fst (load_request_cache k (snd (save_request_cache k m w)))
          = fst (load_request_cache k w)"
    by (simp add: load_request_cache_result unchanged)
next
  assume "mkdir_ok (disk w) \<and> writable (disk w) (cache_path k) \<and> \<not> json_serializable m"
  then show "fst (save_request_cache k m w) = Inr ()"
    and "fst (load_request_cache k (snd (save_request_cache k m w))) = Inr (PDict [])"
    by (simp_all add: load_request_cache_result)
      (simp_all add: save_request_cache_def save_body_def Let_def emit_def)
next
  assume "\<not> readable (disk w) (cache_path k)"
  moreover from save_request_cache_returns [of k m w]
  have "readable (disk (snd (save_request_cache k m w))) = readable (disk w)" by auto
  ultimately show "fst (load_request_cache k (snd (save_request_cache k m w))) = Inr (PDict [])"
    by (simp add: load_request_cache_result)
qed

theorem save_load_roundtrip_witness:
  "fst (load_request_cache ''tokens.txt''
     (snd (save_request_cache ''tokens.txt''
        (PDict [(''tok'', PDict [(''token'', PStr ''tok''), (''holders'', PDict [])])])
        fresh_world)))
   = Inr (PDict [(''tok'', PDict [(''token'', PStr ''tok''), (''holders'', PDict [])])])
   \<and> fst (load_request_cache ''tokens.txt''
     (snd (save_request_cache ''tokens.txt''
        (PDict [(''tok'', PDict [(''token'', PStr ''tok''), (''holders'', PDict [])])])
        readonly_world)))
   = fst (load_request_cache ''tokens.txt'' readonly_world)
   \<and> fst (load_request_cache ''tokens.txt''
     (snd (save_request_cache ''tokens.txt''
        (PDict [(''tok'', PDict [(''token'', PBytes ''tok'')])])
        fresh_world)))
   = Inr (PDict [])
   \<and> fst (load_request_cache ''tokens.txt''
     (snd (save_request_cache ''tokens.txt''
        (PDict [(''tok'', PDict [(''token'', PStr ''tok''), (''holders'', PDict [])])])
        unreadable_world)))
   = Inr (PDict [])"
  using save_load_roundtrip [of fresh_world "''tokens.txt''"
      "PDict [(''tok'', PDict [(''token'', PStr ''tok''), (''holders'', PDict [])])]"]
    save_load_roundtrip [of readonly_world "''tokens.txt''"
      "PDict [(''tok'', PDict [(''token'', PStr ''tok''), (''holders'', PDict [])])]"]
    save_load_roundtrip [of fresh_world "''tokens.txt''"
      "PDict [(''tok'', PDict [(''token'', PBytes ''tok'')])]"]
    save_load_roundtrip [of unreadable_world "''tokens.txt''"
      "PDict [(''tok'', PDict [(''token'', PStr ''tok''), (''holders'', PDict [])])]"]
  by (simp add: fresh_world_def readonly_world_def unreadable_world_def)

text \<open>
  The claim as it stands fails in two ways. A map that holds \<^verbatim>\<open>bytes\<close> (an account
  field that did not decode) makes \<^verbatim>\<open>json.dump\<close> raise after the file was truncated; the
  failure is swallowed and the next load finds no document. A key with a directory part
  names a file in a directory nobody makes; the write fails, is swallowed, and the next
  load finds no file. In both cases the map that comes back is empty.
\<close>

theorem save_load_roundtrip_counterexample:
  "fst (load_request_cache ''tokens.txt''
     (snd (save_request_cache ''tokens.txt''
        (PDict [(''tok'', PDict [(''token'', PStr ''tok''),
                                 (''account'', PDict [(''mint'', PBytes [CHR 0xFF])])])])
        fresh_world)))
    = Inr (PDict [])
  \<and> fst (load_request_cache ''data/tokens.txt''
     (snd (save_request_cache ''data/tokens.txt''
        (PDict [(''tok'', PDict [(''token'', PStr ''tok'')])])
        flat_world)))
    = Inr (PDict [])"
  by (simp add: save_request_cache_def save_body_def Let_def load_request_cache_def
      load_body_def emit_def cache_path_def cache_filename_def CACHE_DIR_def fresh_world_def
      flat_world_def)

section \<open>The metadata fetcher\<close>

lemma http_exhausted:
  assumes "recursion_room s \<le> k"
  shows "async_http_request s url k t = (Inl RecursionError, t)"
  by (subst async_http_request.simps) (simp add: assms)

lemma http_retry_step:
  assumes "k < recursion_room s" and "replies_429 s url k"
  shows "async_http_request s url k t =
     async_http_request s url (Suc k)
       \<lparr>requested = requested t @ [url], slept = slept t + 3,
        tlog = tlog t @ [(DEBUG, ''Got status code %s for url %s, sleeping and retrying'')]\<rparr>"
proof -
  from assms(2) obtain r where r: "session_get s url k = Inr r" "status r = 429"
    by (cases "session_get s url k") (simp_all add: replies_429_def)
  from assms(1) have room: "\<not> recursion_room s \<le> k" by simp
  show ?thesis
    by (subst async_http_request.simps) (cases t, simp add: r room Let_def tlogging_def)
qed

lemma http_ok_step:
  assumes "k < recursion_room s" and "session_get s url k = Inr resp" and "status resp = 200"
  shows "async_http_request s url k t =
     (json resp, \<lparr>requested = requested t @ [url], slept = slept t,
        tlog = tlog t @ [(DEBUG, ''Successful response for url %s'')]\<rparr>)"
proof -
  from assms(1) have room: "\<not> recursion_room s \<le> k" by simp
  show ?thesis
    by (subst async_http_request.simps) (cases t, simp add: assms(2,3) room Let_def tlogging_def)
qed

lemma http_error_step:
  assumes "k < recursion_room s" and "session_get s url k = Inr resp"
    and "status resp \<noteq> 200" and "status resp \<noteq> 429"
  shows "async_http_request s url k t =
     (json resp, \<lparr>requested = requested t @ [url], slept = slept t,
        tlog = tlog t @ [(ERROR, ''HTTP request for %s failed with status %s: %s''),
                         (DEBUG, ''Successful response for url %s'')]\<rparr>)"
proof -
  from assms(1) have room: "\<not> recursion_room s \<le> k" by simp
  show ?thesis
    by (subst async_http_request.simps)
      (cases t, simp add: assms(2,3,4) room Let_def tlogging_def)
qed

lemma retry_then_ok:
  assumes "\<forall>i<n. replies_429 s url (k + i)" and "k + n < recursion_room s"
    and "session_get s url (k + n) = Inr resp" and "status resp = 200"
  shows "async_http_request s url k t =
     (json resp,
       \<lparr>requested = requested t @ replicate (Suc n) url,
        slept = slept t + 3 * n,
        tlog = tlog t
          @ replicate n (DEBUG, ''Got status code %s for url %s, sleeping and retrying'')
          @ [(DEBUG, ''Successful response for url %s'')]\<rparr>)"
  using assms
proof (induction n arbitrary: k t)
  case 0
  then show ?case
    by (cases t) (simp add: http_ok_step)
next
  case (Suc n)
  from Suc.prems(1) have "replies_429 s url (k + 0)"
    by blast
  then have r: "replies_429 s url k"
    by simp
  from Suc.prems(2) have room: "k < recursion_room s" by simp
  have later: "\<forall>i<n. replies_429 s url (Suc k + i)"
  proof (intro allI impI)
    fix i assume "i < n"
    then have "Suc i < Suc n" by simp
    with Suc.prems(1) have "replies_429 s url (k + Suc i)"
      by blast
    then show "replies_429 s url (Suc k + i)" by simp
  qed
  have depth: "Suc k + n < recursion_room s"
    using Suc.prems(2) by simp
  have fin: "session_get s url (Suc k + n) = Inr resp"
    using Suc.prems(3) by simp
  show ?case
    by (simp add: http_retry_step [OF room r] Suc.IH [OF later depth fin Suc.prems(4)])
qed

lemma retry_exhausts:
  assumes "\<forall>i. k \<le> i \<and> i < recursion_room s \<longrightarrow> replies_429 s url i"
    and "k + d = recursion_room s"
  shows "async_http_request s url k t =
     (Inl RecursionError,
       \<lparr>requested = requested t @ replicate d url,
        slept = slept t + 3 * d,
        tlog = tlog t
          @ replicate d (DEBUG, ''Got status code %s for url %s, sleeping and retrying'')\<rparr>)"
  using assms
proof (induction d arbitrary: k t)
  case 0
  then have "recursion_room s \<le> k" by simp
  then show ?case
    by (cases t) (simp add: http_exhausted)
next
  case (Suc d)
  from Suc.prems(2) have room: "k < recursion_room s" by simp
  with Suc.prems(1) have r: "replies_429 s url k" by simp
  have later: "\<forall>i. Suc k \<le> i \<and> i < recursion_room s \<longrightarrow> replies_429 s url i"
    using Suc.prems(1) by simp
  have rest: "Suc k + d = recursion_room s"
    using Suc.prems(2) by simp
  show ?case
    by (simp add: http_retry_step [OF room r] Suc.IH [OF later rest] replicate_app_Cons_same)
qed

text \<open>The record as \<^verbatim>\<open>get_arweave_metadata\<close> leaves it before it asks.\<close>

lemma arweave_prepare:
  assumes "py_item data_dict ''account'' = Inr account"
  shows "\<exists>kvs. bind_exn (py_get data_dict ''arweave'') (\<lambda>current.
               if current = PNone then py_setitem data_dict ''arweave'' (PDict [])
               else Inr data_dict) = Inr (PDict kvs)"
  using assms
  by (cases data_dict) (auto simp: bind_exn_def split: option.splits)

text \<open>The first step and the whole task: a task that is started and then run leaves
  what the fetcher leaves when it is called on the record as it was.\<close>

lemma arweave_first_step_then_task:
  "get_arweave_metadata client (arweave_first_step data_dict)
     = get_arweave_metadata client data_dict"
proof (cases "bind_exn (py_item data_dict ''account'') (\<lambda>account.
           bind_exn (py_item account ''data'') (\<lambda>account_data.
           py_get account_data ''uri''))")
  case (Inl e)
  then show ?thesis by (simp add: arweave_first_step_def)
next
  case (Inr uri)
  then obtain kvs account where d: "data_dict = PDict kvs"
    and a: "map_of kvs ''account'' = Some account"
    by (cases data_dict) (auto simp: bind_exn_def split: option.splits)
  have uri: "bind_exn (py_item (PDict kvs) ''account'')
          (\<lambda>account. bind_exn (py_item account ''data'') (\<lambda>account_data.
           py_get account_data ''uri'')) = Inr uri"
    using Inr by (simp add: d)
  show ?thesis
  proof (cases "map_of kvs ''arweave'' = None \<or> map_of kvs ''arweave'' = Some PNone")
    case True
    have pre: "bind_exn (py_get (PDict kvs) ''arweave'') (\<lambda>current.
               if current = PNone then py_setitem (PDict kvs) ''arweave'' (PDict [])
               else Inr (PDict kvs)) = Inr (PDict (AList.update ''arweave'' (PDict []) kvs))"
      using True by (auto simp: bind_exn_def)
    have first: "arweave_first_step data_dict = PDict (AList.update ''arweave'' (PDict []) kvs)"
      unfolding arweave_first_step_def d uri pre by simp
    have same: "bind_exn (py_item (PDict (AList.update ''arweave'' (PDict []) kvs)) ''account'')
          (\<lambda>account. bind_exn (py_item account ''data'') (\<lambda>account_data.
           py_get account_data ''uri'')) = Inr uri"
      using uri by (simp add: bind_exn_def update_conv' a)
    have again: "bind_exn (py_get (PDict (AList.update ''arweave'' (PDict []) kvs)) ''arweave'')
          (\<lambda>current.
               if current = PNone
               then py_setitem (PDict (AList.update ''arweave'' (PDict []) kvs)) ''arweave''
                      (PDict [])
               else Inr (PDict (AList.update ''arweave'' (PDict []) kvs)))
          = Inr (PDict (AList.update ''arweave'' (PDict []) kvs))"
      by (simp add: bind_exn_def update_conv')
    show ?thesis
      unfolding first unfolding get_arweave_metadata_def d uri pre same again by simp
  next
    case False
    then have "arweave_first_step data_dict = data_dict"
      unfolding arweave_first_step_def d uri
      by (auto simp: bind_exn_def split: option.splits)
    then show ?thesis by simp
  qed
qed

text \<open>A fetcher that raises leaves the record as its first step has left it.\<close>

lemma arweave_failure_leaves_first_step:
  assumes "get_arweave_metadata client data_dict = (Inl e, data_dict', t)"
  shows "data_dict' = arweave_first_step data_dict"
  using assms
  unfolding get_arweave_metadata_def arweave_first_step_def
  by (auto split: sum.splits if_splits prod.splits)

text \<open>
  Claim C5, amended. For a record whose \<^verbatim>\<open>account.data.uri\<close> is there and is a URI (a
  value that is not empty, which is what the fetcher asks for): a 429 makes the fetcher
  sleep three seconds and ask for the same URI again, by a call nested in the one that
  got the 429. When the first \<open>n\<close> replies are 429 and the next one is a 200 with a JSON
  body, and \<open>n\<close> nested calls still fit under the interpreter's recursion limit, the
  fetcher returns with that body in the \<^verbatim>\<open>arweave\<close> field, having asked \<open>n + 1\<close> times
  and slept before each retry. The retries are not without limit: when every reply is
  a 429, the call that no longer fits raises \<^verbatim>\<open>RecursionError\<close>, the task fails, and the
  record keeps the empty object the first step has put there. One 429 and then a 200
  make two requests and one retry.
\<close>

theorem rate_limit_retried:
  assumes "py_item data_dict ''account'' = Inr account"
    and "py_item account ''data'' = Inr account_data"
    and "py_get account_data ''uri'' = Inr uri"
    and "py_truthy uri"
  shows "((\<forall>i<n. replies_429 session uri i) \<and> n < recursion_room session
          \<and> session_get session uri n = Inr resp
          \<and> status resp = 200 \<and> json resp = Inr body \<longrightarrow>
          (\<exists>data_dict' t. get_arweave_metadata session data_dict = (Inr (), data_dict', t)
             \<and> py_item data_dict' ''arweave'' = Inr body
             \<and> requested t = replicate (Suc n) uri \<and> slept t = 3 * n))
       \<and> ((\<forall>i<recursion_room session. replies_429 session uri i) \<longrightarrow>
          (\<exists>t. get_arweave_metadata session data_dict
                  = (Inl RecursionError, arweave_first_step data_dict, t)
             \<and> requested t = replicate (recursion_room session) uri
             \<and> slept t = 3 * recursion_room session))"
proof -
  from arweave_prepare [OF assms(1)] obtain kvs where
    prep: "bind_exn (py_get data_dict ''arweave'') (\<lambda>current.
               if current = PNone then py_setitem data_dict ''arweave'' (PDict [])
               else Inr data_dict) = Inr (PDict kvs)" by blast
  have uri: "bind_exn (py_item data_dict ''account'') (\<lambda>account.
           bind_exn (py_item account ''data'') (\<lambda>account_data.
           py_get account_data ''uri'')) = Inr uri"
    by (simp add: bind_exn_def assms)
  have first: "arweave_first_step data_dict = PDict kvs"
    unfolding arweave_first_step_def uri prep by simp
  have ok: "get_arweave_metadata session data_dict
        = (Inr (), PDict (AList.update ''arweave'' body kvs),
            \<lparr>requested = replicate (Suc n) uri, slept = 3 * n,
             tlog = replicate n (DEBUG, ''Got status code %s for url %s, sleeping and retrying'')
                    @ [(DEBUG, ''Successful response for url %s'')]\<rparr>)"
    if a: "\<forall>i<n. replies_429 session uri i" and room: "n < recursion_room session"
      and b: "session_get session uri n = Inr resp"
      and c: "status resp = 200" and d: "json resp = Inr body"
  proof -
    from a have a': "\<forall>i<n. replies_429 session uri (0 + i)" by simp
    from room have room': "0 + n < recursion_room session" by simp
    from b have b': "session_get session uri (0 + n) = Inr resp" by simp
    have "async_http_request session uri 0 trace0 =
        (Inr body, \<lparr>requested = replicate (Suc n) uri, slept = 3 * n,
             tlog = replicate n (DEBUG, ''Got status code %s for url %s, sleeping and retrying'')
                    @ [(DEBUG, ''Successful response for url %s'')]\<rparr>)"
      using retry_then_ok [OF a' room' b' c, of trace0] by (simp add: trace0_def d)
    then show ?thesis
      unfolding get_arweave_metadata_def uri prep by (simp add: assms(4))
  qed
  have out: "get_arweave_metadata session data_dict
        = (Inl RecursionError, PDict kvs,
            \<lparr>requested = replicate (recursion_room session) uri,
             slept = 3 * recursion_room session,
             tlog = replicate (recursion_room session)
                      (DEBUG, ''Got status code %s for url %s, sleeping and retrying'')\<rparr>)"
    if "\<forall>i<recursion_room session. replies_429 session uri i"
  proof -
    from that have all: "\<forall>i. 0 \<le> i \<and> i < recursion_room session \<longrightarrow> replies_429 session uri i"
      by simp
    have "async_http_request session uri 0 trace0 =
        (Inl RecursionError,
          \<lparr>requested = replicate (recursion_room session) uri,
           slept = 3 * recursion_room session,
           tlog = replicate (recursion_room session)
                    (DEBUG, ''Got status code %s for url %s, sleeping and retrying'')\<rparr>)"
      using retry_exhausts [OF all, of "recursion_room session" trace0]
      by (simp add: trace0_def)
    then show ?thesis
      unfolding get_arweave_metadata_def uri prep by (simp add: assms(4))
  qed
  show ?thesis
  proof (intro conjI impI)
    assume h: "(\<forall>i<n. replies_429 session uri i) \<and> n < recursion_room session
          \<and> session_get session uri n = Inr resp
          \<and> status resp = 200 \<and> json resp = Inr body"
    then have "get_arweave_metadata session data_dict
        = (Inr (), PDict (AList.update ''arweave'' body kvs),
            \<lparr>requested = replicate (Suc n) uri, slept = 3 * n,
             tlog = replicate n (DEBUG, ''Got status code %s for url %s, sleeping and retrying'')
                    @ [(DEBUG, ''Successful response for url %s'')]\<rparr>)"
      using ok by blast
    moreover have "py_item (PDict (AList.update ''arweave'' body kvs)) ''arweave'' = Inr body"
      by (simp add: update_conv')
    ultimately show "\<exists>data_dict' t. get_arweave_metadata session data_dict = (Inr (), data_dict', t)
             \<and> py_item data_dict' ''arweave'' = Inr body
             \<and> requested t = replicate (Suc n) uri \<and> slept t = 3 * n"
      by simp
  next
    assume "\<forall>i<recursion_room session. replies_429 session uri i"
    from out [OF this] show "\<exists>t. get_arweave_metadata session data_dict
                  = (Inl RecursionError, arweave_first_step data_dict, t)
             \<and> requested t = replicate (recursion_room session) uri
             \<and> slept t = 3 * recursion_room session"
      by (simp add: first)
  qed
qed

theorem rate_limit_retried_witness:
  "(\<exists>data_dict' t. get_arweave_metadata once_429 token_with_uri = (Inr (), data_dict', t)
      \<and> py_item data_dict' ''arweave'' = Inr (PDict [(''attributes'', PList [])])
      \<and> requested t = [PStr ''https://arweave.net/x'', PStr ''https://arweave.net/x'']
      \<and> slept t = 3)
   \<and> (\<exists>t. get_arweave_metadata always_429 token_with_uri
            = (Inl RecursionError, arweave_first_step token_with_uri, t)
      \<and> requested t = replicate 977 (PStr ''https://arweave.net/x'')
      \<and> slept t = 2931)"
proof
  show "\<exists>data_dict' t. get_arweave_metadata once_429 token_with_uri = (Inr (), data_dict', t)
      \<and> py_item data_dict' ''arweave'' = Inr (PDict [(''attributes'', PList [])])
      \<and> requested t = [PStr ''https://arweave.net/x'', PStr ''https://arweave.net/x'']
      \<and> slept t = 3"
    using rate_limit_retried [of token_with_uri
        "PDict [(''data'', PDict [(''uri'', PStr ''https://arweave.net/x'')])]"
        "PDict [(''uri'', PStr ''https://arweave.net/x'')]"
        "PStr ''https://arweave.net/x''" 1 once_429
        "\<lparr>status = 200, json = Inr (PDict [(''attributes'', PList [])])\<rparr>"
        "PDict [(''attributes'', PList [])]"]
    by (simp add: token_with_uri_def once_429_def offline_def replies_429_def)
  have room: "recursion_room always_429 = 977"
    by (simp add: always_429_def offline_def)
  have busy: "\<forall>i<recursion_room always_429.
      replies_429 always_429 (PStr ''https://arweave.net/x'') i"
    by (simp add: replies_429_def always_429_def)
  have uri: "py_item token_with_uri ''account''
        = Inr (PDict [(''data'', PDict [(''uri'', PStr ''https://arweave.net/x'')])])"
    "py_item (PDict [(''data'', PDict [(''uri'', PStr ''https://arweave.net/x'')])]) ''data''
        = Inr (PDict [(''uri'', PStr ''https://arweave.net/x'')])"
    "py_get (PDict [(''uri'', PStr ''https://arweave.net/x'')]) ''uri''
        = Inr (PStr ''https://arweave.net/x'')"
    "py_truthy (PStr ''https://arweave.net/x'')"
    by (simp_all add: token_with_uri_def)
  from rate_limit_retried [where session = always_429, OF uri, THEN conjunct2, THEN mp, OF busy]
  show "\<exists>t. get_arweave_metadata always_429 token_with_uri
            = (Inl RecursionError, arweave_first_step token_with_uri, t)
      \<and> requested t = replicate 977 (PStr ''https://arweave.net/x'')
      \<and> slept t = 2931"
    by (simp add: room)
qed

text \<open>
  A server that answers 429 every time: after 977 requests, each followed by a sleep of
  three seconds, the next call does not fit and the fetcher raises. The retries have a
  limit.
\<close>

theorem rate_limit_retried_counterexample:
  "get_arweave_metadata always_429 token_with_uri =
     (Inl RecursionError,
      PDict [(''token'', PStr ''tok''),
         (''account'', PDict [(''data'', PDict [(''uri'', PStr ''https://arweave.net/x'')])]),
         (''arweave'', PDict [])],
      \<lparr>requested = replicate 977 (PStr ''https://arweave.net/x''), slept = 2931,
       tlog = replicate 977
                (DEBUG, ''Got status code %s for url %s, sleeping and retrying'')\<rparr>)"
proof -
  have room: "recursion_room always_429 = 977"
    by (simp add: always_429_def offline_def)
  have all: "\<forall>i. 0 \<le> i \<and> i < recursion_room always_429
      \<longrightarrow> replies_429 always_429 (PStr ''https://arweave.net/x'') i"
    by (simp add: replies_429_def always_429_def)
  have "async_http_request always_429 (PStr ''https://arweave.net/x'') 0 trace0 =
     (Inl RecursionError,
      \<lparr>requested = replicate 977 (PStr ''https://arweave.net/x''), slept = 2931,
       tlog = replicate 977
                (DEBUG, ''Got status code %s for url %s, sleeping and retrying'')\<rparr>)"
    using retry_exhausts [OF all, of 977 trace0] by (simp add: room trace0_def)
  then show ?thesis
    by (simp add: get_arweave_metadata_def token_with_uri_def bind_exn_def)
qed

text \<open>
  Claim C4 at a URI that answers 404 with a JSON body: the failure is logged and nothing
  is retried, but the \<^verbatim>\<open>arweave\<close> field gets the body of the error reply, not the
  empty object, and the line after the error says the response was successful.
\<close>

theorem http_failure_stores_error_body:
  "get_arweave_metadata not_found token_with_uri =
     (Inr (),
       PDict [(''token'', PStr ''tok''),
         (''account'', PDict [(''data'', PDict [(''uri'', PStr ''https://arweave.net/x'')])]),
         (''arweave'', PDict [(''message'', PStr ''Not Found'')])],
       \<lparr>requested = [PStr ''https://arweave.net/x''], slept = 0,
        tlog = [(ERROR, ''HTTP request for %s failed with status %s: %s''),
                (DEBUG, ''Successful response for url %s'')]\<rparr>)"
proof -
  have "async_http_request not_found (PStr ''https://arweave.net/x'') 0 trace0 =
     (Inr (PDict [(''message'', PStr ''Not Found'')]),
       \<lparr>requested = [PStr ''https://arweave.net/x''], slept = 0,
        tlog = [(ERROR, ''HTTP request for %s failed with status %s: %s''),
                (DEBUG, ''Successful response for url %s'')]\<rparr>)"
    by (subst async_http_request.simps)
      (simp add: not_found_def offline_def trace0_def tlogging_def Let_def)
  then show ?thesis
    by (simp add: get_arweave_metadata_def token_with_uri_def bind_exn_def)
qed

section \<open>What a phase launches\<close>

lemma py_get_unfetched:
  assumes "is_dict d"
  shows "\<exists>v. py_get d field = Inr v \<and> (v = PNone \<longleftrightarrow> unfetched field d)"
  using assms by (cases d) (auto simp: is_dict_def unfetched_def split: option.splits)

lemma launch_tasks_dicts:
  assumes "\<forall>token\<in>set keys. \<exists>d. map_of m token = Some d \<and> is_dict d"
  shows "launch_tasks field m keys =
     Inr (filter (\<lambda>token. case map_of m token of
                             None \<Rightarrow> False
                           | Some data_dict \<Rightarrow> unfetched field data_dict) keys)"
  using assms
proof (induction keys)
  case Nil
  then show ?case by simp
next
  case (Cons token keys)
  then obtain d where d: "map_of m token = Some d" "is_dict d" by auto
  from py_get_unfetched [OF d(2)] obtain v where
    v: "py_get d field = Inr v" "v = PNone \<longleftrightarrow> unfetched field d" by blast
  from Cons have rest: "launch_tasks field m keys =
     Inr (filter (\<lambda>token. case map_of m token of
                             None \<Rightarrow> False
                           | Some data_dict \<Rightarrow> unfetched field data_dict) keys)"
    by simp
  show ?case
    using v(2) by (simp add: bind_exn_def d(1) v(1) rest)
qed

lemma map_of_fst_mem:
  "t \<in> set (map fst m) \<Longrightarrow> \<exists>r. map_of m t = Some r \<and> r \<in> snd ` set m"
  by (induction m) (auto simp: rev_image_eqI)

text \<open>On a map whose records are dicts the selection returns, with the tokens whose field
  is absent or \<^verbatim>\<open>None\<close>, in the order of the map.\<close>

lemma launch_tasks_selected:
  assumes "\<forall>r\<in>snd ` set m. is_dict r"
  shows "launch_tasks field m (map fst m) = Inr (selected field m)"
proof -
  have "\<forall>token\<in>set (map fst m). \<exists>d. map_of m token = Some d \<and> is_dict d"
  proof
    fix token assume "token \<in> set (map fst m)"
    from map_of_fst_mem [OF this] assms
    show "\<exists>d. map_of m token = Some d \<and> is_dict d" by blast
  qed
  from launch_tasks_dicts [OF this] show ?thesis
    by (simp add: selected_def)
qed

lemma selected_iff:
  "t \<in> set (selected field m) \<longleftrightarrow>
     (\<exists>kvs. map_of m t = Some (PDict kvs)
         \<and> (map_of kvs field = None \<or> map_of kvs field = Some PNone))"
proof
  assume "t \<in> set (selected field m)"
  then obtain d where d: "map_of m t = Some d" "unfetched field d"
    by (auto simp: selected_def split: option.splits)
  from d(2) obtain kvs where "d = PDict kvs"
    and "map_of kvs field = None \<or> map_of kvs field = Some PNone"
    by (cases d) (auto simp: unfetched_def split: option.splits)
  with d(1) show "\<exists>kvs. map_of m t = Some (PDict kvs)
         \<and> (map_of kvs field = None \<or> map_of kvs field = Some PNone)" by blast
next
  assume "\<exists>kvs. map_of m t = Some (PDict kvs)
         \<and> (map_of kvs field = None \<or> map_of kvs field = Some PNone)"
  then obtain kvs where k: "map_of m t = Some (PDict kvs)"
    and f: "map_of kvs field = None \<or> map_of kvs field = Some PNone" by blast
  from k have "t \<in> set (map fst m)"
    by (metis map_of_eq_None_iff option.distinct(1) set_map)
  moreover from f have "unfetched field (PDict kvs)"
    by (auto simp: unfetched_def)
  ultimately show "t \<in> set (selected field m)"
    by (simp add: selected_def k)
qed

lemma populated_is_dict: "populated field r \<Longrightarrow> is_dict r"
  by (cases r) (simp_all add: populated_def is_dict_def)

lemma populated_not_unfetched: "populated field r \<Longrightarrow> \<not> unfetched field r"
  by (cases r) (auto simp: populated_def unfetched_def split: option.splits)

lemma selected_populated:
  assumes "\<forall>r\<in>snd ` set m. populated field r"
  shows "selected field m = []"
proof -
  have "\<not> (case map_of m token of None \<Rightarrow> False | Some d \<Rightarrow> unfetched field d)"
    if "token \<in> set (map fst m)" for token
  proof -
    from map_of_fst_mem [OF that] obtain r where "map_of m token = Some r" "r \<in> snd ` set m"
      by blast
    with assms populated_not_unfetched show ?thesis by auto
  qed
  then show ?thesis
    unfolding selected_def by (simp add: filter_empty_conv)
qed

lemma is_schedule_Nil: "is_schedule sched \<Longrightarrow> sched [] = []"
proof -
  assume "is_schedule sched"
  then have "set (sched []) = set []"
    unfolding is_schedule_def by (metis distinct.simps(1))
  then show ?thesis by simp
qed

lemma gather_and_save_populated:
  assumes "is_schedule sched" and "\<forall>r\<in>snd ` set m. populated field r"
  shows "gather_and_save field first_step task sched late k m w
           = (Inr (), m, snd (save_request_cache k (PDict m) w))"
proof -
  from assms(2) populated_is_dict have "\<forall>r\<in>snd ` set m. is_dict r" by blast
  from launch_tasks_selected [OF this]
  have l: "launch_tasks field m (map fst m) = Inr []"
    by (simp add: selected_populated [OF assms(2)])
  obtain w' where w': "save_request_cache k (PDict m) w = (Inr (), w')"
    using save_request_cache_returns by blast
  show ?thesis
    by (simp add: gather_and_save_def l is_schedule_Nil [OF assms(1)] w')
qed

text \<open>
  Claim C2, amended. On a map whose records are dicts the selection of a phase returns,
  and it launches a task for a token exactly when the field is absent from the token's
  record or holds \<^verbatim>\<open>None\<close>: every other value, the empty and falsy ones included,
  counts as fetched. So over a map in which every record holds the field with a value
  other than \<^verbatim>\<open>None\<close> a phase launches nothing and returns the map as it was,
  whatever the scheduler.
\<close>

theorem fetch_iff_absent_or_None:
  "((\<forall>r\<in>snd ` set m. is_dict r) \<longrightarrow>
      launch_tasks field m (map fst m) = Inr (selected field m)
      \<and> (\<forall>t. t \<in> set (selected field m) \<longleftrightarrow>
           (\<exists>kvs. map_of m t = Some (PDict kvs)
               \<and> (map_of kvs field = None \<or> map_of kvs field = Some PNone))))
   \<and> (is_schedule sched \<and> (\<forall>r\<in>snd ` set m. populated ''holders'' r) \<longrightarrow>
        (\<exists>w'. populate_holders_details_async client sched late m k w = (Inr (), m, w')))
   \<and> (is_schedule sched \<and> is_schedule sched2
        \<and> (\<forall>r\<in>snd ` set m. populated ''account'' r \<and> populated ''arweave'' r) \<longrightarrow>
        (\<exists>w'. populate_account_details_async client sched late sched2 late2 m k w
                 = (Inr (), m, w')))"
proof (intro conjI impI)
  assume "\<forall>r\<in>snd ` set m. is_dict r"
  from launch_tasks_selected [OF this]
  show "launch_tasks field m (map fst m) = Inr (selected field m)" .
next
  show "\<forall>t. t \<in> set (selected field m) \<longleftrightarrow>
           (\<exists>kvs. map_of m t = Some (PDict kvs)
               \<and> (map_of kvs field = None \<or> map_of kvs field = Some PNone))"
    using selected_iff by blast
next
  assume a: "is_schedule sched \<and> (\<forall>r\<in>snd ` set m. populated ''holders'' r)"
  obtain w1 where w1: "save_request_cache k (PDict m)
      (emit INFO ''\<newline>Populating holders details...'' w) = (Inr (), w1)"
    using save_request_cache_returns by blast
  obtain w2 where w2: "save_request_cache k (PDict m) w1 = (Inr (), w2)"
    using save_request_cache_returns by blast
  show "\<exists>w'. populate_holders_details_async client sched late m k w = (Inr (), m, w')"
    using a
    by (simp add: populate_holders_details_async_def populate_holders_inner_def
        gather_and_save_populated w1 w2)
next
  assume a: "is_schedule sched \<and> is_schedule sched2
        \<and> (\<forall>r\<in>snd ` set m. populated ''account'' r \<and> populated ''arweave'' r)"
  then have p1: "\<forall>r\<in>snd ` set m. populated ''account'' r"
    and p2: "\<forall>r\<in>snd ` set m. populated ''arweave'' r" by blast+
  obtain w1 where w1: "save_request_cache k (PDict m)
      (emit INFO ''\<newline>Populating account details...'' w) = (Inr (), w1)"
    using save_request_cache_returns by blast
  obtain w2 where w2: "save_request_cache k (PDict m)
      (emit INFO ''\<newline>Populating token metadata details...''
         (emit INFO ''--- %s seconds ---'' w1)) = (Inr (), w2)"
    using save_request_cache_returns by blast
  obtain w3 where w3: "save_request_cache k (PDict m) w2 = (Inr (), w3)"
    using save_request_cache_returns by blast
  from a have s1: "is_schedule sched" and s2: "is_schedule sched2" by blast+
  show "\<exists>w'. populate_account_details_async client sched late sched2 late2 m k w
                 = (Inr (), m, w')"
    by (simp add: populate_account_details_async_def populate_account_inner_def
        populate_account_inner2_def gather_and_save_populated [OF s1 p1]
        gather_and_save_populated [OF s2 p2] w1 w2 w3)
qed

theorem fetch_iff_absent_or_None_witness:
  "launch_tasks ''holders'' empty_and_missing (map fst empty_and_missing)
      = Inr (selected ''holders'' empty_and_missing)
   \<and> selected ''holders'' empty_and_missing = [''t2'']
   \<and> (\<exists>w'. populate_holders_details_async offline id 0
          [(''t1'', PDict [(''token'', PStr ''t1''), (''holders'', PDict [])])]
          ''tokens.txt'' fresh_world
        = (Inr (), [(''t1'', PDict [(''token'', PStr ''t1''), (''holders'', PDict [])])], w'))
   \<and> (\<exists>w'. populate_account_details_async offline id 0 rev 0
          [(''t1'', PDict [(''token'', PStr ''t1''), (''account'', PDict []),
                           (''arweave'', PDict [])])]
          ''tokens.txt'' fresh_world
        = (Inr (), [(''t1'', PDict [(''token'', PStr ''t1''), (''account'', PDict []),
                                    (''arweave'', PDict [])])], w'))"
proof (intro conjI)
  have dicts: "\<forall>r\<in>snd ` set empty_and_missing. is_dict r"
    by (simp add: empty_and_missing_def is_dict_def)
  from fetch_iff_absent_or_None [THEN conjunct1, THEN mp, OF dicts, THEN conjunct1]
  show "launch_tasks ''holders'' empty_and_missing (map fst empty_and_missing)
      = Inr (selected ''holders'' empty_and_missing)" .
  show "selected ''holders'' empty_and_missing = [''t2'']"
    by (simp add: selected_def empty_and_missing_def unfetched_def)
  have s: "is_schedule id" "is_schedule rev"
    by (simp_all add: is_schedule_def)
  show "\<exists>w'. populate_holders_details_async offline id 0
          [(''t1'', PDict [(''token'', PStr ''t1''), (''holders'', PDict [])])]
          ''tokens.txt'' fresh_world
        = (Inr (), [(''t1'', PDict [(''token'', PStr ''t1''), (''holders'', PDict [])])], w')"
    using fetch_iff_absent_or_None [THEN conjunct2, THEN conjunct1, rule_format, of id
        "[(''t1'', PDict [(''token'', PStr ''t1''), (''holders'', PDict [])])]"] s
    by (simp add: populated_def)
  show "\<exists>w'. populate_account_details_async offline id 0 rev 0
          [(''t1'', PDict [(''token'', PStr ''t1''), (''account'', PDict []),
                           (''arweave'', PDict [])])]
          ''tokens.txt'' fresh_world
        = (Inr (), [(''t1'', PDict [(''token'', PStr ''t1''), (''account'', PDict []),
                                    (''arweave'', PDict [])])], w')"
    using fetch_iff_absent_or_None [THEN conjunct2, THEN conjunct2, rule_format, of id rev
        "[(''t1'', PDict [(''token'', PStr ''t1''), (''account'', PDict []),
                          (''arweave'', PDict [])])]"] s
    by (simp add: populated_def)
qed

text \<open>A record that holds \<^verbatim>\<open>"holders": null\<close> has the field, and is fetched again.\<close>

theorem fetch_iff_absent_counterexample:
  "launch_tasks ''holders'' [(''t'', PDict [(''token'', PStr ''t''), (''holders'', PNone)])]
      (map fst [(''t'', PDict [(''token'', PStr ''t''), (''holders'', PNone)])]) = Inr [''t'']
   \<and> map_of [(''token'', PStr ''t''), (''holders'', PNone)] ''holders'' \<noteq> None"
  by (simp add: bind_exn_def)

section \<open>A failing task\<close>

lemma start_all_map_of:
  assumes "distinct ts"
  shows "map_of (start_all first_step ts m) token =
     (if token \<in> set ts then map_option first_step (map_of m token) else map_of m token)"
  using assms
proof (induction ts arbitrary: m)
  case Nil
  then show ?case by simp
next
  case (Cons t rest)
  define m1 where "m1 = (case map_of m t of
          None \<Rightarrow> m
        | Some data_dict \<Rightarrow> AList.update t (first_step data_dict) m)"
  have m1: "map_of m1 x = (if x = t then map_option first_step (map_of m t) else map_of m x)"
    for x
    by (cases "map_of m t") (simp_all add: m1_def update_conv')
  from Cons.prems have d: "distinct rest" and t: "t \<notin> set rest" by simp_all
  have "map_of (start_all first_step rest m1) token =
     (if token \<in> set rest then map_option first_step (map_of m1 token) else map_of m1 token)"
    by (rule Cons.IH [OF d])
  moreover have "start_all first_step (t # rest) m = start_all first_step rest m1"
    by (simp add: m1_def)
  ultimately show ?case
    using t by (auto simp: m1)
qed

lemma run_unawaited_frame:
  assumes "run_unawaited task ts m w = (m', w')"
  shows "disk w' = disk w \<and> (\<forall>token. token \<notin> set ts \<longrightarrow> map_of m' token = map_of m token)"
  using assms
proof (induction ts arbitrary: m w)
  case Nil
  then show ?case by simp
next
  case (Cons t rest)
  show ?case
  proof (cases "map_of m t")
    case None
    with Cons.prems have "run_unawaited task rest m w = (m', w')" by simp
    from Cons.IH [OF this] show ?thesis by simp
  next
    case (Some d)
    obtain r d1 tr where y: "task d = (r, d1, tr)" by (cases "task d")
    from Cons.prems Some y
    have "run_unawaited task rest (AList.update t d1 m) (w\<lparr>logged := logged w @ tlog tr\<rparr>)
          = (m', w')" by simp
    from Cons.IH [OF this] show ?thesis by (simp add: update_conv')
  qed
qed

text \<open>The run of the tasks up to the first that raises: the tasks before it have
  completed, the next \<open>late\<close> complete unawaited, and no other record is touched.\<close>

lemma await_all_abort:
  assumes "distinct (pre @ t' # post)"
    and "\<forall>token\<in>set pre. \<exists>d d1 tr. map_of m token = Some d \<and> task d = (Inr (), d1, tr)"
    and "map_of m t' = Some d'" and "task d' = (Inl e, d'', tr')"
  shows "\<exists>m' w'. await_all task late (pre @ t' # post) m w = (Inl e, m', w')
       \<and> disk w' = disk w \<and> map_of m' t' = Some d''
       \<and> (\<forall>token. token \<notin> set pre \<and> token \<noteq> t' \<and> token \<notin> set (take late post)
             \<longrightarrow> map_of m' token = map_of m token)"
  using assms
proof (induction pre arbitrary: m w)
  case Nil
  obtain m' w' where run: "run_unawaited task (take late post) (AList.update t' d'' m)
      (w\<lparr>logged := logged w @ tlog tr'\<rparr>) = (m', w')"
    by (cases "run_unawaited task (take late post) (AList.update t' d'' m)
      (w\<lparr>logged := logged w @ tlog tr'\<rparr>)")
  from Nil.prems(1) have "t' \<notin> set post" by simp
  then have notin: "t' \<notin> set (take late post)"
    using set_take_subset [of late post] by blast
  from run_unawaited_frame [OF run]
  have "disk w' = disk w"
    and frame: "\<forall>token. token \<notin> set (take late post)
        \<longrightarrow> map_of m' token = map_of (AList.update t' d'' m) token"
    by simp_all
  moreover have "await_all task late ([] @ t' # post) m w = (Inl e, m', w')"
    by (simp add: Nil.prems(3,4) run)
  moreover from frame notin have "map_of m' t' = Some d''"
    by (simp add: update_conv')
  moreover from frame have "\<forall>token. token \<notin> set [] \<and> token \<noteq> t' \<and> token \<notin> set (take late post)
             \<longrightarrow> map_of m' token = map_of m token"
    by (simp add: update_conv')
  ultimately show ?case by blast
next
  case (Cons p pre)
  from Cons.prems(2) obtain d d1 tr where
    p: "map_of m p = Some d" "task d = (Inr (), d1, tr)" by auto
  from Cons.prems(1) have dist: "distinct (pre @ t' # post)"
    and p_pre: "p \<notin> set pre" and p_t: "p \<noteq> t'" and p_post: "p \<notin> set post" by auto
  let ?m1 = "AList.update p d1 m"
  let ?w1 = "w\<lparr>logged := logged w @ tlog tr\<rparr>"
  have ok: "\<forall>token\<in>set pre. \<exists>d d1 tr. map_of ?m1 token = Some d \<and> task d = (Inr (), d1, tr)"
  proof
    fix token assume t: "token \<in> set pre"
    with p_pre have "token \<noteq> p" by blast
    then have "map_of ?m1 token = map_of m token" by (simp add: update_conv')
    with Cons.prems(2) t show "\<exists>d d1 tr. map_of ?m1 token = Some d \<and> task d = (Inr (), d1, tr)"
      by simp
  qed
  have bad: "map_of ?m1 t' = Some d'"
    using p_t Cons.prems(3) by (simp add: update_conv')
  from Cons.IH [OF dist ok bad Cons.prems(4), of ?w1]
  obtain m' w' where r: "await_all task late (pre @ t' # post) ?m1 ?w1 = (Inl e, m', w')"
    and dk: "disk w' = disk ?w1" and t': "map_of m' t' = Some d''"
    and frame: "\<forall>token. token \<notin> set pre \<and> token \<noteq> t' \<and> token \<notin> set (take late post)
             \<longrightarrow> map_of m' token = map_of ?m1 token"
    by blast
  have "await_all task late ((p # pre) @ t' # post) m w = (Inl e, m', w')"
    by (simp add: p r)
  moreover from dk have "disk w' = disk w" by simp
  moreover have "\<forall>token. token \<notin> set (p # pre) \<and> token \<noteq> t' \<and> token \<notin> set (take late post)
             \<longrightarrow> map_of m' token = map_of m token"
  proof (intro allI impI)
    fix token
    assume a: "token \<notin> set (p # pre) \<and> token \<noteq> t' \<and> token \<notin> set (take late post)"
    then have "map_of m' token = map_of ?m1 token"
      using frame by simp
    also from a have "\<dots> = map_of m token" by (simp add: update_conv')
    finally show "map_of m' token = map_of m token" .
  qed
  ultimately show ?case using t' by blast
qed

lemma selected_record:
  assumes "token \<in> set (selected field m)"
  shows "\<exists>d. map_of m token = Some d \<and> unfetched field d"
  using assms by (auto simp: selected_def split: option.splits)

lemma selected_distinct: "distinct (map fst m) \<Longrightarrow> distinct (selected field m)"
  by (simp add: selected_def)

text \<open>Whatever the order of completion, when a launched task raises there is a first
  one that does.\<close>

lemma first_failure:
  assumes "is_schedule sched" and "distinct (map fst m)"
    and "t \<in> set (selected field m)" and "fails task m t"
  shows "\<exists>before first rest. sched (selected field m) = before @ first # rest
      \<and> fails task m first \<and> (\<forall>x\<in>set before. \<not> fails task m x)"
proof -
  from assms(1) selected_distinct [OF assms(2)]
  have "set (sched (selected field m)) = set (selected field m)"
    unfolding is_schedule_def by blast
  with assms(3,4) have "\<exists>x\<in>set (sched (selected field m)). fails task m x" by blast
  from split_list_first_prop [OF this] show ?thesis by blast
qed

text \<open>The shape of every run of a phase in which an awaited task has raised.\<close>

lemma gather_and_save_abort:
  assumes sched: "is_schedule sched" and dist: "distinct (map fst m)"
    and dicts: "\<forall>r\<in>snd ` set m. is_dict r"
    and prepared: "\<forall>d. task (first_step d) = task d"
    and split: "sched (selected field m) = pre @ t' # post"
    and ok: "\<forall>token\<in>set pre. \<not> fails task m token"
    and bad: "map_of m t' = Some d'" and raises: "task d' = (Inl e, d'', tr)"
  shows "\<exists>m' w'. gather_and_save field first_step task sched late k m w = (Inl e, m', w')
       \<and> disk w' = disk w \<and> map_of m' t' = Some d''
       \<and> (\<forall>token\<in>set (drop late post).
             \<exists>d. map_of m token = Some d \<and> unfetched field d
                \<and> map_of m' token = Some (first_step d))"
proof -
  let ?ts = "selected field m"
  let ?m0 = "start_all first_step ?ts m"
  have launch: "launch_tasks field m (map fst m) = Inr ?ts"
    by (rule launch_tasks_selected [OF dicts])
  have dts: "distinct ?ts" by (rule selected_distinct [OF dist])
  with sched have "distinct (sched ?ts)" and same: "set (sched ?ts) = set ?ts"
    unfolding is_schedule_def by blast+
  then have dl: "distinct (pre @ t' # post)" by (simp add: split)
  have mem: "token \<in> set ?ts" if "token \<in> set (pre @ t' # post)" for token
  proof -
    from that have "token \<in> set (sched ?ts)" by (simp only: split)
    then show ?thesis by (simp only: same)
  qed
  have m0: "map_of ?m0 token = map_option first_step (map_of m token)"
    if "token \<in> set (pre @ t' # post)" for token
    using mem [OF that] by (simp add: start_all_map_of [OF dts])
  have ok0: "\<forall>token\<in>set pre. \<exists>d d1 tr. map_of ?m0 token = Some d \<and> task d = (Inr (), d1, tr)"
  proof
    fix token assume t: "token \<in> set pre"
    then have "token \<in> set (pre @ t' # post)" by simp
    from selected_record [OF mem [OF this]] m0 [OF this]
    obtain d where d: "map_of m token = Some d" "map_of ?m0 token = Some (first_step d)"
      by auto
    obtain r d1 tr1 where y: "task d = (r, d1, tr1)" by (cases "task d")
    from ok t have "\<not> fails task m token" by blast
    with d(1) y have "r = Inr ()"
      by (cases r) (simp_all add: fails_def)
    with y prepared have "task (first_step d) = (Inr (), d1, tr1)" by simp
    with d(2) show "\<exists>d d1 tr. map_of ?m0 token = Some d \<and> task d = (Inr (), d1, tr)"
      by blast
  qed
  have bad0: "map_of ?m0 t' = Some (first_step d')"
    using m0 [of t'] bad by simp
  have raises0: "task (first_step d') = (Inl e, d'', tr)"
    using prepared raises by simp
  from await_all_abort [where task = task, OF dl ok0 bad0 raises0, of late w]
  obtain m' w' where r: "await_all task late (pre @ t' # post) ?m0 w = (Inl e, m', w')"
    and dk: "disk w' = disk w" and t': "map_of m' t' = Some d''"
    and frame: "\<forall>token. token \<notin> set pre \<and> token \<noteq> t' \<and> token \<notin> set (take late post)
             \<longrightarrow> map_of m' token = map_of ?m0 token"
    by blast
  have "gather_and_save field first_step task sched late k m w = (Inl e, m', w')"
    by (simp add: gather_and_save_def launch split r)
  moreover have "\<forall>token\<in>set (drop late post).
             \<exists>d. map_of m token = Some d \<and> unfetched field d
                \<and> map_of m' token = Some (first_step d)"
  proof
    fix token assume t: "token \<in> set (drop late post)"
    then have post: "token \<in> set post"
      using set_drop_subset [of late post] by blast
    with dl have "token \<notin> set pre" and "token \<noteq> t'" by auto
    moreover from dl have "distinct post" by simp
    then have "token \<notin> set (take late post)"
      using t set_take_disj_set_drop_if_distinct [of post late late] by auto
    ultimately have "map_of m' token = map_of ?m0 token"
      using frame by blast
    moreover from post have l: "token \<in> set (pre @ t' # post)" by simp
    from selected_record [OF mem [OF l]] obtain d where
      d: "map_of m token = Some d" "unfetched field d" by blast
    ultimately show "\<exists>d. map_of m token = Some d \<and> unfetched field d
                \<and> map_of m' token = Some (first_step d)"
      using m0 [OF l] by simp
  qed
  ultimately show ?thesis using dk t' by blast
qed

lemma split_selected:
  assumes "is_schedule sched" and "distinct (map fst m)"
    and "sched (selected field m) = pre @ t' # post"
  shows "t' \<in> set (selected field m)"
proof -
  from assms(1) selected_distinct [OF assms(2)]
  have same: "set (sched (selected field m)) = set (selected field m)"
    unfolding is_schedule_def by blast
  have "t' \<in> set (pre @ t' # post)" by simp
  then have "t' \<in> set (sched (selected field m))" by (simp only: assms(3))
  then show ?thesis by (simp only: same)
qed

text \<open>The first step of the metadata fetcher on a record that has the URI and lacks the
  field.\<close>

lemma arweave_first_step_presets:
  assumes "py_item d ''account'' = Inr account"
    and "py_item account ''data'' = Inr account_data"
    and "py_get account_data ''uri'' = Inr uri"
    and "unfetched ''arweave'' d"
  shows "py_item (arweave_first_step d) ''arweave'' = Inr (PDict [])"
proof -
  from assms(4) obtain kvs where d: "d = PDict kvs"
    and f: "map_of kvs ''arweave'' = None \<or> map_of kvs ''arweave'' = Some PNone"
    by (cases d) (auto simp: unfetched_def split: option.splits)
  have uri: "bind_exn (py_item (PDict kvs) ''account'') (\<lambda>account.
           bind_exn (py_item account ''data'') (\<lambda>account_data.
           py_get account_data ''uri'')) = Inr uri"
    using assms(1,2,3) by (simp add: bind_exn_def d)
  have pre: "bind_exn (py_get (PDict kvs) ''arweave'') (\<lambda>current.
               if current = PNone then py_setitem (PDict kvs) ''arweave'' (PDict [])
               else Inr (PDict kvs)) = Inr (PDict (AList.update ''arweave'' (PDict []) kvs))"
    using f by (auto simp: bind_exn_def)
  have "arweave_first_step d = PDict (AList.update ''arweave'' (PDict []) kvs)"
    unfolding arweave_first_step_def d uri pre by simp
  then show ?thesis by (simp add: update_conv')
qed

text \<open>
  Claim C1, amended. A phase awaits its tasks with nothing around the \<^verbatim>\<open>await\<close> that
  would catch. Over a map whose records are dicts, for every order of completion and
  every number of tasks that still complete unawaited: when a launched task raises, there
  is a first task in the order of completion that does, and its exception leaves the
  phase; the holder phase and the on-chain account phase make the call of the orchestrator
  raise it, the off-chain phase makes \<^verbatim>\<open>inner2\<close> raise it, and what \<^verbatim>\<open>inner2\<close> raises leaves
  the call of the orchestrator before its last save. The phase saves nothing: the cache
  directory is as it was before the call. In the holder and account phases the record of
  the failing task is unchanged, so its field is still absent or \<^verbatim>\<open>None\<close>, and so
  are the records of the siblings that had not completed: they are cancelled and never
  fetched. In the off-chain phase the failing record and those of the cancelled siblings
  are left as the first step of the fetcher has left them, which is with the empty object
  in the field when the record has the URI to read.
\<close>

theorem task_failure_aborts_phase:
  assumes "is_schedule sched" and "distinct (map fst m)" and "\<forall>r\<in>snd ` set m. is_dict r"
  shows "(t \<in> set (selected field m) \<and> fails task m t \<longrightarrow>
          (\<exists>before first rest. sched (selected field m) = before @ first # rest
              \<and> fails task m first \<and> (\<forall>x\<in>set before. \<not> fails task m x)))
       \<and> (sched (selected ''holders'' m) = pre @ t' # post
            \<and> (\<forall>token\<in>set pre. \<not> fails (holder_task client) m token)
            \<and> map_of m t' = Some d'
            \<and> get_holder_info_from_solana_async client d' = Inl e \<longrightarrow>
          (\<exists>m' w'. populate_holders_details_async client sched late m k w = (Inl e, m', w')
              \<and> disk w' = disk w
              \<and> (\<forall>token\<in>set (t' # drop late post).
                    \<exists>d. map_of m token = Some d \<and> unfetched ''holders'' d
                       \<and> map_of m' token = Some d)))
       \<and> (sched (selected ''account'' m) = pre @ t' # post
            \<and> (\<forall>token\<in>set pre. \<not> fails (account_task client) m token)
            \<and> map_of m t' = Some d'
            \<and> get_account_info_from_solana_async client d' = Inl e \<longrightarrow>
          (\<exists>m' w'. populate_account_details_async client sched late sched2 late2 m k w
                      = (Inl e, m', w')
              \<and> disk w' = disk w
              \<and> (\<forall>token\<in>set (t' # drop late post).
                    \<exists>d. map_of m token = Some d \<and> unfetched ''account'' d
                       \<and> map_of m' token = Some d)))
       \<and> (sched (selected ''arweave'' m) = pre @ t' # post
            \<and> (\<forall>token\<in>set pre. \<not> fails (get_arweave_metadata client) m token)
            \<and> map_of m t' = Some d'
            \<and> fst (get_arweave_metadata client d') = Inl e \<longrightarrow>
          (\<exists>m' w'. populate_account_inner2 client sched late k m w = (Inl e, m', w')
              \<and> disk w' = disk w
              \<and> (\<forall>token\<in>set (t' # drop late post).
                    \<exists>d. map_of m token = Some d \<and> unfetched ''arweave'' d
                       \<and> map_of m' token = Some (arweave_first_step d))))
       \<and> (py_item d' ''account'' = Inr account \<and> py_item account ''data'' = Inr account_data
            \<and> py_get account_data ''uri'' = Inr uri \<and> unfetched ''arweave'' d' \<longrightarrow>
          py_item (arweave_first_step d') ''arweave'' = Inr (PDict []))
       \<and> (populate_account_inner client sched late k m
              (emit INFO ''\<newline>Populating account details...'' w) = (Inr (), m1, w1)
            \<and> populate_account_inner2 client sched2 late2 k m1
                (emit INFO ''\<newline>Populating token metadata details...''
                   (emit INFO ''--- %s seconds ---'' w1)) = (Inl e2, m2, w2) \<longrightarrow>
          populate_account_details_async client sched late sched2 late2 m k w
            = (Inl e2, m2, w2))"
proof (intro conjI impI)
  assume "t \<in> set (selected field m) \<and> fails task m t"
  then show "\<exists>before first rest. sched (selected field m) = before @ first # rest
              \<and> fails task m first \<and> (\<forall>x\<in>set before. \<not> fails task m x)"
    using first_failure [OF assms(1,2)] by blast
next
  assume a: "sched (selected ''holders'' m) = pre @ t' # post
            \<and> (\<forall>token\<in>set pre. \<not> fails (holder_task client) m token)
            \<and> map_of m t' = Some d'
            \<and> get_holder_info_from_solana_async client d' = Inl e"
  then have split: "sched (selected ''holders'' m) = pre @ t' # post"
    and ok: "\<forall>token\<in>set pre. \<not> fails (holder_task client) m token"
    and bad: "map_of m t' = Some d'" by blast+
  from a have raises: "holder_task client d' = (Inl e, d', trace0)"
    by (simp add: holder_task_def)
  have prepared: "\<forall>d. holder_task client ((\<lambda>data_dict. data_dict) d) = holder_task client d"
    by simp
  from gather_and_save_abort [where task = "holder_task client"
        and first_step = "\<lambda>data_dict. data_dict",
      OF assms prepared split ok bad raises,
      of late k "emit INFO ''\<newline>Populating holders details...'' w"]
  obtain m' w' where r: "gather_and_save ''holders'' (\<lambda>data_dict. data_dict)
        (holder_task client) sched late k m
        (emit INFO ''\<newline>Populating holders details...'' w) = (Inl e, m', w')"
    and dk: "disk w' = disk (emit INFO ''\<newline>Populating holders details...'' w)"
    and t': "map_of m' t' = Some d'"
    and rest: "\<forall>token\<in>set (drop late post).
             \<exists>d. map_of m token = Some d \<and> unfetched ''holders'' d
                \<and> map_of m' token = Some d"
    by blast
  from selected_record [OF split_selected [OF assms(1,2) split]] bad
  have "unfetched ''holders'' d'" by simp
  with bad t' rest have "\<forall>token\<in>set (t' # drop late post).
                    \<exists>d. map_of m token = Some d \<and> unfetched ''holders'' d
                       \<and> map_of m' token = Some d" by simp
  moreover have "populate_holders_details_async client sched late m k w = (Inl e, m', w')"
    by (simp add: populate_holders_details_async_def populate_holders_inner_def r)
  moreover from dk have "disk w' = disk w" by (simp add: emit_def)
  ultimately show "\<exists>m' w'. populate_holders_details_async client sched late m k w
                     = (Inl e, m', w')
              \<and> disk w' = disk w
              \<and> (\<forall>token\<in>set (t' # drop late post).
                    \<exists>d. map_of m token = Some d \<and> unfetched ''holders'' d
                       \<and> map_of m' token = Some d)" by blast
next
  assume a: "sched (selected ''account'' m) = pre @ t' # post
            \<and> (\<forall>token\<in>set pre. \<not> fails (account_task client) m token)
            \<and> map_of m t' = Some d'
            \<and> get_account_info_from_solana_async client d' = Inl e"
  then have split: "sched (selected ''account'' m) = pre @ t' # post"
    and ok: "\<forall>token\<in>set pre. \<not> fails (account_task client) m token"
    and bad: "map_of m t' = Some d'" by blast+
  from a have raises: "account_task client d' = (Inl e, d', trace0)"
    by (simp add: account_task_def)
  have prepared: "\<forall>d. account_task client ((\<lambda>data_dict. data_dict) d) = account_task client d"
    by simp
  from gather_and_save_abort [where task = "account_task client"
        and first_step = "\<lambda>data_dict. data_dict",
      OF assms prepared split ok bad raises,
      of late k "emit INFO ''\<newline>Populating account details...'' w"]
  obtain m' w' where r: "gather_and_save ''account'' (\<lambda>data_dict. data_dict)
        (account_task client) sched late k m
        (emit INFO ''\<newline>Populating account details...'' w) = (Inl e, m', w')"
    and dk: "disk w' = disk (emit INFO ''\<newline>Populating account details...'' w)"
    and t': "map_of m' t' = Some d'"
    and rest: "\<forall>token\<in>set (drop late post).
             \<exists>d. map_of m token = Some d \<and> unfetched ''account'' d
                \<and> map_of m' token = Some d"
    by blast
  from selected_record [OF split_selected [OF assms(1,2) split]] bad
  have "unfetched ''account'' d'" by simp
  with bad t' rest have "\<forall>token\<in>set (t' # drop late post).
                    \<exists>d. map_of m token = Some d \<and> unfetched ''account'' d
                       \<and> map_of m' token = Some d" by simp
  moreover have "populate_account_details_async client sched late sched2 late2 m k w
      = (Inl e, m', w')"
    by (simp add: populate_account_details_async_def populate_account_inner_def r)
  moreover from dk have "disk w' = disk w" by (simp add: emit_def)
  ultimately show "\<exists>m' w'. populate_account_details_async client sched late sched2 late2 m k w
                      = (Inl e, m', w')
              \<and> disk w' = disk w
              \<and> (\<forall>token\<in>set (t' # drop late post).
                    \<exists>d. map_of m token = Some d \<and> unfetched ''account'' d
                       \<and> map_of m' token = Some d)" by blast
next
  assume a: "sched (selected ''arweave'' m) = pre @ t' # post
            \<and> (\<forall>token\<in>set pre. \<not> fails (get_arweave_metadata client) m token)
            \<and> map_of m t' = Some d'
            \<and> fst (get_arweave_metadata client d') = Inl e"
  then have split: "sched (selected ''arweave'' m) = pre @ t' # post"
    and ok: "\<forall>token\<in>set pre. \<not> fails (get_arweave_metadata client) m token"
    and bad: "map_of m t' = Some d'" by blast+
  from a obtain d'' tr where raises: "get_arweave_metadata client d' = (Inl e, d'', tr)"
    by (cases "get_arweave_metadata client d'") auto
  from arweave_failure_leaves_first_step [OF raises]
  have d'': "d'' = arweave_first_step d'" .
  have prepared: "\<forall>d. get_arweave_metadata client (arweave_first_step d)
      = get_arweave_metadata client d"
    by (simp add: arweave_first_step_then_task)
  from gather_and_save_abort [where task = "get_arweave_metadata client"
        and first_step = arweave_first_step,
      OF assms prepared split ok bad raises, of late k w]
  obtain m' w' where r: "gather_and_save ''arweave'' arweave_first_step
        (get_arweave_metadata client) sched late k m w = (Inl e, m', w')"
    and dk: "disk w' = disk w"
    and t': "map_of m' t' = Some d''"
    and rest: "\<forall>token\<in>set (drop late post).
             \<exists>d. map_of m token = Some d \<and> unfetched ''arweave'' d
                \<and> map_of m' token = Some (arweave_first_step d)"
    by blast
  from selected_record [OF split_selected [OF assms(1,2) split]] bad
  have "unfetched ''arweave'' d'" by simp
  with bad t' rest d'' have "\<forall>token\<in>set (t' # drop late post).
                    \<exists>d. map_of m token = Some d \<and> unfetched ''arweave'' d
                       \<and> map_of m' token = Some (arweave_first_step d)" by simp
  moreover have "populate_account_inner2 client sched late k m w = (Inl e, m', w')"
    by (simp add: populate_account_inner2_def r)
  ultimately show "\<exists>m' w'. populate_account_inner2 client sched late k m w = (Inl e, m', w')
              \<and> disk w' = disk w
              \<and> (\<forall>token\<in>set (t' # drop late post).
                    \<exists>d. map_of m token = Some d \<and> unfetched ''arweave'' d
                       \<and> map_of m' token = Some (arweave_first_step d))"
    using dk by blast
next
  assume "py_item d' ''account'' = Inr account \<and> py_item account ''data'' = Inr account_data
            \<and> py_get account_data ''uri'' = Inr uri \<and> unfetched ''arweave'' d'"
  then show "py_item (arweave_first_step d') ''arweave'' = Inr (PDict [])"
    using arweave_first_step_presets by blast
next
  assume "populate_account_inner client sched late k m
              (emit INFO ''\<newline>Populating account details...'' w) = (Inr (), m1, w1)
            \<and> populate_account_inner2 client sched2 late2 k m1
                (emit INFO ''\<newline>Populating token metadata details...''
                   (emit INFO ''--- %s seconds ---'' w1)) = (Inl e2, m2, w2)"
  then show "populate_account_details_async client sched late sched2 late2 m k w
            = (Inl e2, m2, w2)"
    by (simp add: populate_account_details_async_def)
qed

theorem task_failure_aborts_phase_witness:
  "(\<exists>m' w'. populate_holders_details_async flaky rev 0 two_tokens ''tokens.txt'' fresh_world
        = (Inl ClientError, m', w')
      \<and> disk w' = disk fresh_world
      \<and> map_of m' ''bad'' = Some (PDict [(''token'', PStr ''bad'')])
      \<and> map_of m' ''good'' = Some (PDict [(''token'', PStr ''good'')]))
   \<and> (\<exists>m' w'. populate_account_details_async flaky id 0 rev 0 two_tokens ''tokens.txt''
          fresh_world = (Inl ClientError, m', w')
      \<and> disk w' = disk fresh_world
      \<and> map_of m' ''good'' = Some (PDict [(''token'', PStr ''good'')])
      \<and> map_of m' ''bad'' = Some (PDict [(''token'', PStr ''bad'')]))
   \<and> (\<exists>m' w'. populate_account_inner2 offline id 0 ''tokens.txt'' two_with_uri fresh_world
        = (Inl ClientError, m', w')
      \<and> disk w' = disk fresh_world
      \<and> map_of m' ''a'' = Some (arweave_first_step record_a)
      \<and> map_of m' ''b'' = Some (arweave_first_step record_b))
   \<and> py_item (arweave_first_step record_a) ''arweave'' = Inr (PDict [])
   \<and> (\<exists>before first rest. rev (selected ''holders'' two_tokens) = before @ first # rest
        \<and> fails (holder_task flaky) two_tokens first)"
proof (intro conjI)
  have s: "is_schedule id" "is_schedule rev"
    by (simp_all add: is_schedule_def)
  have d: "distinct (map fst two_tokens)"
    and dicts: "\<forall>r\<in>snd ` set two_tokens. is_dict r"
    and bad: "map_of two_tokens ''bad'' = Some (PDict [(''token'', PStr ''bad'')])"
    and good: "map_of two_tokens ''good'' = Some (PDict [(''token'', PStr ''good'')])"
    by (simp_all add: two_tokens_def is_dict_def)
  have sel: "selected ''holders'' two_tokens = [''good'', ''bad'']"
    "selected ''account'' two_tokens = [''good'', ''bad'']"
    by (simp_all add: selected_def two_tokens_def unfetched_def)
  have h: "get_holder_info_from_solana_async flaky (PDict [(''token'', PStr ''bad'')])
      = Inl ClientError"
    by (simp add: get_holder_info_from_solana_async_def flaky_def offline_def bind_exn_def)
  have a: "get_account_info_from_solana_async flaky (PDict [(''token'', PStr ''good'')])
      = Inl ClientError"
    by (simp add: get_account_info_from_solana_async_def flaky_def offline_def bind_exn_def)
  have hyp1: "rev (selected ''holders'' two_tokens) = [] @ ''bad'' # [''good'']
      \<and> (\<forall>token\<in>set []. \<not> fails (holder_task flaky) two_tokens token)
      \<and> map_of two_tokens ''bad'' = Some (PDict [(''token'', PStr ''bad'')])
      \<and> get_holder_info_from_solana_async flaky (PDict [(''token'', PStr ''bad'')])
          = Inl ClientError"
    by (simp add: sel bad h)
  from task_failure_aborts_phase [where sched = rev and m = two_tokens and pre = "[]"
        and t' = "''bad''" and post = "[''good'']" and client = flaky
        and d' = "PDict [(''token'', PStr ''bad'')]" and e = ClientError and late = 0
        and k = "''tokens.txt''" and w = fresh_world,
      OF s(2) d dicts, THEN conjunct2, THEN conjunct1, THEN mp, OF hyp1]
  show "\<exists>m' w'. populate_holders_details_async flaky rev 0 two_tokens ''tokens.txt'' fresh_world
        = (Inl ClientError, m', w')
      \<and> disk w' = disk fresh_world
      \<and> map_of m' ''bad'' = Some (PDict [(''token'', PStr ''bad'')])
      \<and> map_of m' ''good'' = Some (PDict [(''token'', PStr ''good'')])"
    by (auto simp: bad good)
  have hyp2: "id (selected ''account'' two_tokens) = [] @ ''good'' # [''bad'']
      \<and> (\<forall>token\<in>set []. \<not> fails (account_task flaky) two_tokens token)
      \<and> map_of two_tokens ''good'' = Some (PDict [(''token'', PStr ''good'')])
      \<and> get_account_info_from_solana_async flaky (PDict [(''token'', PStr ''good'')])
          = Inl ClientError"
    by (simp add: sel good a)
  from task_failure_aborts_phase [where sched = id and m = two_tokens and pre = "[]"
        and t' = "''good''" and post = "[''bad'']" and client = flaky
        and d' = "PDict [(''token'', PStr ''good'')]" and e = ClientError and late = 0
        and ?sched2.0 = rev and ?late2.0 = 0
        and k = "''tokens.txt''" and w = fresh_world,
      OF s(1) d dicts, THEN conjunct2, THEN conjunct2, THEN conjunct1, THEN mp, OF hyp2]
  show "\<exists>m' w'. populate_account_details_async flaky id 0 rev 0 two_tokens ''tokens.txt''
          fresh_world = (Inl ClientError, m', w')
      \<and> disk w' = disk fresh_world
      \<and> map_of m' ''good'' = Some (PDict [(''token'', PStr ''good'')])
      \<and> map_of m' ''bad'' = Some (PDict [(''token'', PStr ''bad'')])"
    by (auto simp: bad good)
  have d3: "distinct (map fst two_with_uri)"
    and dicts3: "\<forall>r\<in>snd ` set two_with_uri. is_dict r"
    and ra: "map_of two_with_uri ''a'' = Some record_a"
    and rb: "map_of two_with_uri ''b'' = Some record_b"
    by (simp_all add: two_with_uri_def is_dict_def record_a_def record_b_def)
  have sel3: "selected ''arweave'' two_with_uri = [''a'', ''b'']"
    by (simp add: selected_def two_with_uri_def unfetched_def record_a_def record_b_def)
  have req: "async_http_request offline (PStr ''https://arweave.net/a'') 0 trace0
      = (Inl ClientError, trace0\<lparr>requested := [PStr ''https://arweave.net/a'']\<rparr>)"
    by (subst async_http_request.simps) (simp add: offline_def trace0_def)
  have f: "fst (get_arweave_metadata offline record_a) = Inl ClientError"
    by (simp add: get_arweave_metadata_def record_a_def bind_exn_def req)
  have hyp3: "id (selected ''arweave'' two_with_uri) = [] @ ''a'' # [''b'']
      \<and> (\<forall>token\<in>set []. \<not> fails (get_arweave_metadata offline) two_with_uri token)
      \<and> map_of two_with_uri ''a'' = Some record_a
      \<and> fst (get_arweave_metadata offline record_a) = Inl ClientError"
    by (simp add: sel3 ra f)
  from task_failure_aborts_phase [where sched = id and m = two_with_uri and pre = "[]"
        and t' = "''a''" and post = "[''b'']" and client = offline
        and d' = record_a and e = ClientError and late = 0
        and k = "''tokens.txt''" and w = fresh_world,
      OF s(1) d3 dicts3, THEN conjunct2, THEN conjunct2, THEN conjunct2, THEN conjunct1,
      THEN mp, OF hyp3]
  show "\<exists>m' w'. populate_account_inner2 offline id 0 ''tokens.txt'' two_with_uri fresh_world
        = (Inl ClientError, m', w')
      \<and> disk w' = disk fresh_world
      \<and> map_of m' ''a'' = Some (arweave_first_step record_a)
      \<and> map_of m' ''b'' = Some (arweave_first_step record_b)"
    by (auto simp: ra rb)
  have hyp4: "py_item record_a ''account''
        = Inr (PDict [(''data'', PDict [(''uri'', PStr ''https://arweave.net/a'')])])
      \<and> py_item (PDict [(''data'', PDict [(''uri'', PStr ''https://arweave.net/a'')])]) ''data''
        = Inr (PDict [(''uri'', PStr ''https://arweave.net/a'')])
      \<and> py_get (PDict [(''uri'', PStr ''https://arweave.net/a'')]) ''uri''
        = Inr (PStr ''https://arweave.net/a'')
      \<and> unfetched ''arweave'' record_a"
    by (simp add: record_a_def unfetched_def)
  from task_failure_aborts_phase [where sched = id and m = two_with_uri and d' = record_a,
      OF s(1) d3 dicts3, THEN conjunct2, THEN conjunct2, THEN conjunct2, THEN conjunct2,
      THEN conjunct1, THEN mp, OF hyp4]
  show "py_item (arweave_first_step record_a) ''arweave'' = Inr (PDict [])" .
  have hyp5: "''bad'' \<in> set (selected ''holders'' two_tokens)
      \<and> fails (holder_task flaky) two_tokens ''bad''"
    by (simp add: sel fails_def bad holder_task_def h)
  from task_failure_aborts_phase [where sched = rev and m = two_tokens
        and field = "''holders''" and task = "holder_task flaky" and t = "''bad''",
      OF s(2) d dicts, THEN conjunct1, THEN mp, OF hyp5]
  show "\<exists>before first rest. rev (selected ''holders'' two_tokens) = before @ first # rest
        \<and> fails (holder_task flaky) two_tokens first"
    by blast
qed

text \<open>
  Two tokens, and the ledger is unreachable for one of them. Its task is the first to
  complete: it raises, the holder phase raises with it, no cache file is written, and the
  sibling, whose fetch would have gone well, is cancelled: its record never gets the
  field. And a metadata server that cannot be reached: the task raises, and the record
  it fails for holds the empty object in its \<^verbatim>\<open>arweave\<close> field.
\<close>

theorem task_failure_aborts_phase_counterexample:
  "populate_holders_details_async flaky rev 0 two_tokens ''tokens.txt'' fresh_world
     = (Inl ClientError, two_tokens,
        emit INFO ''\<newline>Populating holders details...'' fresh_world)
   \<and> files (disk (emit INFO ''\<newline>Populating holders details...'' fresh_world))
        (cache_path ''tokens.txt'') = None
   \<and> get_holder_info_from_solana_async flaky (PDict [(''token'', PStr ''good'')])
       = Inr (PDict [(''token'', PStr ''good''),
                     (''holders'', PDict [(''info'', PDict [(''owner'', PStr ''owner1''),
                        (''tokenAmount'', PDict [(''amount'', PStr ''1'')])])])])
   \<and> populate_account_inner2 offline id 0 ''tokens.txt'' [(''a'', record_a)] fresh_world
       = (Inl ClientError,
          [(''a'', PDict [(''token'', PStr ''a''),
              (''account'', PDict [(''data'', PDict [(''uri'', PStr ''https://arweave.net/a'')])]),
              (''arweave'', PDict [])])],
          fresh_world)"
proof (intro conjI)
  show "populate_holders_details_async flaky rev 0 two_tokens ''tokens.txt'' fresh_world
     = (Inl ClientError, two_tokens,
        emit INFO ''\<newline>Populating holders details...'' fresh_world)"
    by (simp add: populate_holders_details_async_def populate_holders_inner_def
        gather_and_save_def two_tokens_def bind_exn_def holder_task_def
        get_holder_info_from_solana_async_def flaky_def offline_def
        trace0_def emit_def fresh_world_def)
  show "files (disk (emit INFO ''\<newline>Populating holders details...'' fresh_world))
        (cache_path ''tokens.txt'') = None"
    by (simp add: emit_def fresh_world_def)
  show "get_holder_info_from_solana_async flaky (PDict [(''token'', PStr ''good'')])
       = Inr (PDict [(''token'', PStr ''good''),
                     (''holders'', PDict [(''info'', PDict [(''owner'', PStr ''owner1''),
                        (''tokenAmount'', PDict [(''amount'', PStr ''1'')])])])])"
    by (simp add: get_holder_info_from_solana_async_def flaky_def offline_def
        holder_reply_def bind_exn_def)
  have req: "async_http_request offline (PStr ''https://arweave.net/a'') 0 trace0
      = (Inl ClientError, trace0\<lparr>requested := [PStr ''https://arweave.net/a'']\<rparr>)"
    by (subst async_http_request.simps) (simp add: offline_def trace0_def)
  have task: "get_arweave_metadata offline
        (PDict [(''token'', PStr ''a''),
           (''account'', PDict [(''data'', PDict [(''uri'', PStr ''https://arweave.net/a'')])]),
           (''arweave'', PDict [])])
      = (Inl ClientError,
         PDict [(''token'', PStr ''a''),
           (''account'', PDict [(''data'', PDict [(''uri'', PStr ''https://arweave.net/a'')])]),
           (''arweave'', PDict [])],
         trace0\<lparr>requested := [PStr ''https://arweave.net/a'']\<rparr>)"
    by (simp add: get_arweave_metadata_def bind_exn_def req)
  show "populate_account_inner2 offline id 0 ''tokens.txt'' [(''a'', record_a)] fresh_world
       = (Inl ClientError,
          [(''a'', PDict [(''token'', PStr ''a''),
              (''account'', PDict [(''data'', PDict [(''uri'', PStr ''https://arweave.net/a'')])]),
              (''arweave'', PDict [])])],
          fresh_world)"
    by (simp add: populate_account_inner2_def gather_and_save_def record_a_def bind_exn_def
        arweave_first_step_def task trace0_def fresh_world_def)
qed

section \<open>The holder counts\<close>

lemma count_step:
  "increment k (zero_if_missing k c) = Inr (AList.update k (count_at c k + 1) c)"
  by (cases "map_of c k")
    (simp_all add: increment_def zero_if_missing_def count_at_def update_conv')

lemma count_at_update:
  "count_at (AList.update k v c) k' = (if k' = k then v else count_at c k')"
  by (simp add: count_at_def update_conv')

lemma sum_count_step:
  "sum_list (map snd (AList.update k (count_at c k + 1) c)) = sum_list (map snd c) + 1"
proof (induction c)
  case Nil
  then show ?case by (simp add: count_at_def)
next
  case (Cons p ps)
  show ?case
  proof (cases "fst p = k")
    case True
    then show ?thesis by (cases p) (simp add: count_at_def)
  next
    case False
    then have "count_at (p # ps) k = count_at ps k"
      by (cases p) (auto simp: count_at_def)
    with False Cons.IH show ?thesis by simp
  qed
qed

lemma holder_counts_loop_step:
  "holder_counts_loop ((token, data_dict) # rest) counts =
     bind_exn (holder_key data_dict) (\<lambda>k.
       holder_counts_loop rest (AList.update k (count_at counts k + 1) counts))"
  by (simp add: holder_key_def bind_exn_def count_step split: sum.splits)

lemma holder_counts_loop_counts:
  "holder_counts_loop m c = Inr c' \<Longrightarrow>
     count_at c' k = count_at c k
        + int (length (filter (\<lambda>tr. holder_key (snd tr) = Inr k) m))"
proof (induction m arbitrary: c)
  case Nil
  then show ?case by simp
next
  case (Cons p m)
  obtain token data_dict where p: "p = (token, data_dict)" by (cases p)
  from Cons.prems obtain k0 where k0: "holder_key data_dict = Inr k0"
    and rest: "holder_counts_loop m (AList.update k0 (count_at c k0 + 1) c) = Inr c'"
    unfolding p holder_counts_loop_step
    by (cases "holder_key data_dict") (simp_all add: bind_exn_def)
  from Cons.IH [OF rest] show ?case
    by (simp add: p k0 count_at_update)
qed

lemma holder_counts_loop_sum:
  "holder_counts_loop m c = Inr c' \<Longrightarrow>
     sum_list (map snd c') = sum_list (map snd c) + int (length m)"
proof (induction m arbitrary: c)
  case Nil
  then show ?case by simp
next
  case (Cons p m)
  obtain token data_dict where p: "p = (token, data_dict)" by (cases p)
  from Cons.prems obtain k0 where k0: "holder_key data_dict = Inr k0"
    and rest: "holder_counts_loop m (AList.update k0 (count_at c k0 + 1) c) = Inr c'"
    unfolding p holder_counts_loop_step
    by (cases "holder_key data_dict") (simp_all add: bind_exn_def)
  from Cons.IH [OF rest] show ?case
    by (simp add: sum_count_step)
qed

lemma holder_counts_loop_returns:
  "\<forall>r\<in>snd ` set m. \<exists>k. holder_key r = Inr k \<Longrightarrow> \<exists>c'. holder_counts_loop m c = Inr c'"
proof (induction m arbitrary: c)
  case Nil
  then show ?case by simp
next
  case (Cons p m)
  obtain token data_dict where p: "p = (token, data_dict)" by (cases p)
  from Cons.prems obtain k0 where k0: "holder_key data_dict = Inr k0"
    by (auto simp: p)
  from Cons.prems have "\<forall>r\<in>snd ` set m. \<exists>k. holder_key r = Inr k" by simp
  from Cons.IH [OF this] show ?case
    unfolding p holder_counts_loop_step by (simp add: k0 bind_exn_def)
qed

lemma degraded_owner_key:
  assumes "py_item data_dict ''holders'' = Inr (PDict token_holders)"
    and "map_of token_holders ''info'' = Some (PDict info)"
    and "map_of info ''owner'' = None \<or> (\<exists>v. map_of info ''owner'' = Some v \<and> \<not> py_truthy v)"
  shows "holder_key data_dict = Inr (KStr UNKNOWN_ADDRESS)"
  using assms
  by (auto simp: holder_key_def holder_address_of_def bind_exn_def py_or_def)

text \<open>
  Claim C6, amended. The sentinel is the aggregator's, not the fetcher's, and it stands
  in for one thing only: an owner that is absent or falsy inside a well-formed
  \<^verbatim>\<open>holders.info\<close> dict. Such a record is counted under \<^verbatim>\<open>"UNKNOWN_ADDRESS"\<close>: its
  turn of the loop does not raise, and whenever \<^verbatim>\<open>holder_counts\<close> returns, the counts
  add up to the number of tokens and the sentinel's count is the number of such records,
  at least one. The aggregator returns whenever every record's turn does.
\<close>

theorem unknown_owner_counted:
  assumes "py_item data_dict ''holders'' = Inr (PDict token_holders)"
    and "map_of token_holders ''info'' = Some (PDict info)"
    and "map_of info ''owner'' = None \<or> (\<exists>v. map_of info ''owner'' = Some v \<and> \<not> py_truthy v)"
    and "(token, data_dict) \<in> set all_token_data"
  shows "holder_key data_dict = Inr (KStr UNKNOWN_ADDRESS)
     \<and> (\<forall>n counts. holder_counts all_token_data = Inr (n, counts) \<longrightarrow>
           n = int (length all_token_data) \<and> sum_list (map snd counts) = n
           \<and> count_at counts (KStr UNKNOWN_ADDRESS)
               = int (length (filter (\<lambda>tr. holder_key (snd tr) = Inr (KStr UNKNOWN_ADDRESS))
                        all_token_data))
           \<and> 1 \<le> count_at counts (KStr UNKNOWN_ADDRESS))
     \<and> ((\<forall>r\<in>snd ` set all_token_data. \<exists>k. holder_key r = Inr k) \<longrightarrow>
           (\<exists>n counts. holder_counts all_token_data = Inr (n, counts)))"
proof (intro conjI allI impI)
  show key: "holder_key data_dict = Inr (KStr UNKNOWN_ADDRESS)"
    using assms(1-3) by (rule degraded_owner_key)
  have pos: "1 \<le> length (filter (\<lambda>tr. holder_key (snd tr) = Inr (KStr UNKNOWN_ADDRESS))
                        all_token_data)"
  proof -
    from assms(4) key
    have "(token, data_dict) \<in> set (filter (\<lambda>tr. holder_key (snd tr) = Inr (KStr UNKNOWN_ADDRESS))
                        all_token_data)" by simp
    then have "filter (\<lambda>tr. holder_key (snd tr) = Inr (KStr UNKNOWN_ADDRESS))
                        all_token_data \<noteq> []" by (metis empty_iff list.set(1))
    then show ?thesis by (simp add: Suc_le_eq)
  qed
  {
    fix n counts
    assume "holder_counts all_token_data = Inr (n, counts)"
    then have loop: "holder_counts_loop all_token_data [] = Inr counts"
      and n: "n = int (length all_token_data)"
      by (auto simp: holder_counts_def bind_exn_def split: sum.splits)
    show "n = int (length all_token_data)" by (rule n)
    show "sum_list (map snd counts) = n"
      using holder_counts_loop_sum [OF loop] n by simp
    show c: "count_at counts (KStr UNKNOWN_ADDRESS)
               = int (length (filter (\<lambda>tr. holder_key (snd tr) = Inr (KStr UNKNOWN_ADDRESS))
                        all_token_data))"
      using holder_counts_loop_counts [OF loop, of "KStr UNKNOWN_ADDRESS"]
      by (simp add: count_at_def)
    show "1 \<le> count_at counts (KStr UNKNOWN_ADDRESS)"
      using pos c by simp
  }
  assume "\<forall>r\<in>snd ` set all_token_data. \<exists>k. holder_key r = Inr k"
  from holder_counts_loop_returns [OF this, of "[]"]
  show "\<exists>n counts. holder_counts all_token_data = Inr (n, counts)"
    by (auto simp: holder_counts_def bind_exn_def)
qed

theorem unknown_owner_counted_witness:
  "holder_counts
     [(''t1'', PDict [(''token'', PStr ''t1''),
         (''holders'', PDict [(''info'', PDict [(''owner'', PStr ''owner1'')])])]),
      (''t2'', PDict [(''token'', PStr ''t2''),
         (''holders'', PDict [(''info'', PDict [(''owner'', PNone)])])])]
    = Inr (2, [(KStr ''owner1'', 1), (KStr UNKNOWN_ADDRESS, 1)])
   \<and> 1 \<le> count_at [(KStr ''owner1'', 1), (KStr UNKNOWN_ADDRESS, 1)] (KStr UNKNOWN_ADDRESS)
   \<and> holder_key (PDict [(''token'', PStr ''t2''),
         (''holders'', PDict [(''info'', PDict [(''owner'', PNone)])])])
      = Inr (KStr UNKNOWN_ADDRESS)"
proof -
  have run: "holder_counts
     [(''t1'', PDict [(''token'', PStr ''t1''),
         (''holders'', PDict [(''info'', PDict [(''owner'', PStr ''owner1'')])])]),
      (''t2'', PDict [(''token'', PStr ''t2''),
         (''holders'', PDict [(''info'', PDict [(''owner'', PNone)])])])]
    = Inr (2, [(KStr ''owner1'', 1), (KStr UNKNOWN_ADDRESS, 1)])"
    by (simp add: holder_counts_def holder_address_of_def bind_exn_def py_or_def
        increment_def zero_if_missing_def UNKNOWN_ADDRESS_def)
  from unknown_owner_counted [of
      "PDict [(''token'', PStr ''t2''),
         (''holders'', PDict [(''info'', PDict [(''owner'', PNone)])])]"
      "[(''info'', PDict [(''owner'', PNone)])]" "[(''owner'', PNone)]" "''t2''"
      "[(''t1'', PDict [(''token'', PStr ''t1''),
         (''holders'', PDict [(''info'', PDict [(''owner'', PStr ''owner1'')])])]),
      (''t2'', PDict [(''token'', PStr ''t2''),
         (''holders'', PDict [(''info'', PDict [(''owner'', PNone)])])])]"]
  have "holder_key (PDict [(''token'', PStr ''t2''),
         (''holders'', PDict [(''info'', PDict [(''owner'', PNone)])])])
      = Inr (KStr UNKNOWN_ADDRESS)
    \<and> 1 \<le> count_at [(KStr ''owner1'', 1), (KStr UNKNOWN_ADDRESS, 1)] (KStr UNKNOWN_ADDRESS)"
    by (simp add: run)
  with run show ?thesis by simp
qed

text \<open>
  Owner data that is missing in another way raises. A \<^verbatim>\<open>holders\<close> dict without
  \<^verbatim>\<open>info\<close> makes the aggregator call \<^verbatim>\<open>.get\<close> on \<^verbatim>\<open>None\<close>; a ledger that knows no
  account for the token makes the fetcher index an empty list.
\<close>

theorem unknown_owner_counted_counterexample:
  "holder_counts [(''t'', PDict [(''token'', PStr ''t''), (''holders'', PDict [])])]
     = Inl AttributeError
   \<and> get_holder_info_from_solana_async no_accounts (PDict [(''token'', PStr ''t'')])
     = Inl IndexError"
  by (simp add: holder_counts_def holder_address_of_def bind_exn_def
      get_holder_info_from_solana_async_def no_accounts_def offline_def)

section \<open>The trait distribution\<close>

lemma count_attribute_result:
  assumes "count_attribute a ac = Inr ac'"
  shows "\<exists>tk vk. trait_key a = Inr tk \<and> value_key a = Inr vk
     \<and> ac' = AList.update tk
          (AList.update vk (count_at (trait_dict ac tk) vk + 1) (trait_dict ac tk)) ac"
proof -
  from assms obtain tt v tk where tt: "py_item a ''trait_type'' = Inr tt"
    and v: "py_item a ''value'' = Inr v" and tk: "py_hash_key tt = Inr tk"
    by (auto simp: count_attribute_def bind_exn_def split: sum.splits)
  have "bind_exn (py_hash_key (counted_value v)) (\<lambda>vk.
              Inr (AList.update tk
                (AList.update vk (count_at (trait_dict ac tk) vk + 1) (trait_dict ac tk)) ac))
            = Inr ac'"
  proof (cases "case map_of ac tk of None \<Rightarrow> True | Some d \<Rightarrow> d = []")
    case True
    then have "trait_dict ac tk = []"
      by (auto simp: trait_dict_def split: option.splits)
    with True assms show ?thesis
      by (simp add: count_attribute_def bind_exn_def tt v tk update_conv' count_step)
  next
    case False
    then obtain d where "map_of ac tk = Some d" "trait_dict ac tk = d"
      by (auto simp: trait_dict_def split: option.splits)
    with False assms show ?thesis
      by (simp add: count_attribute_def bind_exn_def tt v tk count_step)
  qed
  then obtain vk where vk: "py_hash_key (counted_value v) = Inr vk"
    and res: "ac' = AList.update tk
        (AList.update vk (count_at (trait_dict ac tk) vk + 1) (trait_dict ac tk)) ac"
    by (cases "py_hash_key (counted_value v)") (auto simp: bind_exn_def)
  show ?thesis
    using res by (auto simp: trait_key_def value_key_def bind_exn_def tt v tk vk)
qed

lemma trait_dict_update:
  "trait_dict (AList.update tk d ac) tk' = (if tk' = tk then d else trait_dict ac tk')"
  by (simp add: trait_dict_def update_conv')

lemma count_attribute_counts:
  assumes "count_attribute a ac = Inr ac'"
  shows "count_at (trait_dict ac' tk) vk = count_at (trait_dict ac tk) vk
      + (if trait_key a = Inr tk \<and> value_key a = Inr vk then 1 else 0)"
    and "sum_list (map snd (trait_dict ac' tk)) = sum_list (map snd (trait_dict ac tk))
      + (if trait_key a = Inr tk then 1 else 0)"
proof -
  from count_attribute_result [OF assms] obtain tk0 vk0 where
    k: "trait_key a = Inr tk0" "value_key a = Inr vk0"
    and ac': "ac' = AList.update tk0
          (AList.update vk0 (count_at (trait_dict ac tk0) vk0 + 1) (trait_dict ac tk0)) ac"
    by blast
  show "count_at (trait_dict ac' tk) vk = count_at (trait_dict ac tk) vk
      + (if trait_key a = Inr tk \<and> value_key a = Inr vk then 1 else 0)"
    by (auto simp: ac' k trait_dict_update count_at_update)
  show "sum_list (map snd (trait_dict ac' tk)) = sum_list (map snd (trait_dict ac tk))
      + (if trait_key a = Inr tk then 1 else 0)"
    by (auto simp: ac' k trait_dict_update sum_count_step)
qed

lemma count_attributes_counts:
  assumes "count_attributes items ac = Inr ac'"
  shows "count_at (trait_dict ac' tk) vk = count_at (trait_dict ac tk) vk
      + int (length (filter (\<lambda>a. trait_key a = Inr tk \<and> value_key a = Inr vk) items))"
    and "sum_list (map snd (trait_dict ac' tk)) = sum_list (map snd (trait_dict ac tk))
      + int (length (filter (\<lambda>a. trait_key a = Inr tk) items))"
  using assms
proof (induction items arbitrary: ac)
  case Nil
  { case 1 then show ?case by simp }
  { case 2 then show ?case by simp }
next
  case (Cons a items)
  { case 1
    then obtain ac1 where a: "count_attribute a ac = Inr ac1"
      and rest: "count_attributes items ac1 = Inr ac'"
      by (auto simp: bind_exn_def split: sum.splits)
    from Cons.IH(1) [OF rest] count_attribute_counts(1) [OF a, of tk vk]
    show ?case by simp }
  { case 2
    then obtain ac1 where a: "count_attribute a ac = Inr ac1"
      and rest: "count_attributes items ac1 = Inr ac'"
      by (auto simp: bind_exn_def split: sum.splits)
    from Cons.IH(2) [OF rest] count_attribute_counts(2) [OF a, of tk]
    show ?case by simp }
qed

lemma attribute_loop_step:
  assumes "attribute_loop ((token, data_dict) # rest) tot ac lg = Inr res"
  shows "\<exists>ac1 lg1. count_attributes (attributes_of data_dict) ac = Inr ac1
     \<and> attribute_loop rest (tot + (if has_attributes data_dict then 1 else 0)) ac1 lg1
         = Inr res"
proof -
  from assms obtain attributes where at: "record_attributes data_dict = Inr attributes"
    by (auto simp: record_attributes_def bind_exn_def split: sum.splits)
  show ?thesis
  proof (cases "py_truthy attributes")
    case True
    with assms at obtain items ac1 where "py_iter attributes = Inr items"
      "count_attributes items ac = Inr ac1"
      "attribute_loop rest (tot + 1) ac1 lg = Inr res"
      by (auto simp: record_attributes_def bind_exn_def split: sum.splits)
    with True at show ?thesis
      by (auto simp: attributes_of_def has_attributes_def)
  next
    case False
    with assms at have "attribute_loop rest tot ac
        (lg @ [(INFO, ''Token %s has no attributes'')]) = Inr res"
      by (auto simp: record_attributes_def bind_exn_def split: sum.splits)
    with False at show ?thesis
      by (auto simp: attributes_of_def has_attributes_def)
  qed
qed

lemma attribute_loop_counts:
  assumes "attribute_loop m tot ac lg = Inr (tot', ac', lg')"
  shows "tot' = tot + int (length (filter (\<lambda>tr. has_attributes (snd tr)) m))"
    and "count_at (trait_dict ac' tk) vk = count_at (trait_dict ac tk) vk
      + int (length (filter (\<lambda>a. trait_key a = Inr tk \<and> value_key a = Inr vk)
               (all_attributes m)))"
    and "sum_list (map snd (trait_dict ac' tk)) = sum_list (map snd (trait_dict ac tk))
      + int (length (filter (\<lambda>a. trait_key a = Inr tk) (all_attributes m)))"
  using assms
proof (induction m arbitrary: tot ac lg)
  case Nil
  { case 1 then show ?case by simp }
  { case 2 then show ?case by (simp add: all_attributes_def) }
  { case 3 then show ?case by (simp add: all_attributes_def) }
next
  case (Cons p m)
  obtain token data_dict where p: "p = (token, data_dict)" by (cases p)
  { case 1
    from attribute_loop_step [OF 1 [unfolded p]] obtain ac1 lg1 where
      "attribute_loop m (tot + (if has_attributes data_dict then 1 else 0)) ac1 lg1
         = Inr (tot', ac', lg')" by blast
    from Cons.IH(1) [OF this] show ?case by (simp add: p) }
  { case 2
    from attribute_loop_step [OF 2 [unfolded p]] obtain ac1 lg1 where
      c: "count_attributes (attributes_of data_dict) ac = Inr ac1" and
      "attribute_loop m (tot + (if has_attributes data_dict then 1 else 0)) ac1 lg1
         = Inr (tot', ac', lg')" by blast
    from Cons.IH(2) [OF this(2)] count_attributes_counts(1) [OF c, of tk vk]
    show ?case by (simp add: p all_attributes_def) }
  { case 3
    from attribute_loop_step [OF 3 [unfolded p]] obtain ac1 lg1 where
      c: "count_attributes (attributes_of data_dict) ac = Inr ac1" and
      "attribute_loop m (tot + (if has_attributes data_dict then 1 else 0)) ac1 lg1
         = Inr (tot', ac', lg')" by blast
    from Cons.IH(3) [OF this(2)] count_attributes_counts(2) [OF c, of tk]
    show ?case by (simp add: p all_attributes_def) }
qed

lemma at_most_one_filter:
  assumes "length (filter P xs) \<le> 1"
  shows "length (filter P xs) = (if \<exists>a\<in>set xs. P a then 1 else 0)"
proof (cases "\<exists>a\<in>set xs. P a")
  case True
  then have "filter P xs \<noteq> []" by (simp add: filter_empty_conv)
  then have "1 \<le> length (filter P xs)" by (simp add: Suc_le_eq)
  with assms True show ?thesis by simp
next
  case False
  then have "filter P xs = []" by (simp add: filter_empty_conv)
  with False show ?thesis by simp
qed

lemma entries_without_repeats:
  assumes "\<forall>r\<in>snd ` set m. length (filter P (attributes_of r)) \<le> 1"
  shows "length (filter P (all_attributes m))
       = length (filter (\<lambda>tr. \<exists>a\<in>set (attributes_of (snd tr)). P a) m)"
  using assms
proof (induction m)
  case Nil
  then show ?case by (simp add: all_attributes_def)
next
  case (Cons p m)
  from Cons.prems have "length (filter P (attributes_of (snd p))) \<le> 1" by simp
  from at_most_one_filter [OF this] Cons show ?case
    by (simp add: all_attributes_def)
qed

lemma attributes_of_has_attributes:
  "a \<in> set (attributes_of r) \<Longrightarrow> has_attributes r"
proof (cases "record_attributes r")
  case (Inl e)
  assume "a \<in> set (attributes_of r)"
  with Inl show ?thesis by (simp add: attributes_of_def)
next
  case (Inr attributes)
  assume "a \<in> set (attributes_of r)"
  with Inr show ?thesis
    by (cases "py_truthy attributes") (simp_all add: attributes_of_def has_attributes_def)
qed

lemma length_filter_mono:
  "(\<And>x. x \<in> set xs \<Longrightarrow> P x \<Longrightarrow> Q x) \<Longrightarrow> length (filter P xs) \<le> length (filter Q xs)"
  by (induction xs) auto

text \<open>
  Claim C8, amended. Whenever the aggregator returns, the denominator is the number of
  tokens whose attributes are truthy; the count under a trait type and a value is the
  number of attribute entries of those tokens with that trait type and that value,
  \<^verbatim>\<open>None\<close> counting as the empty string; and the counts of a trait type sum to the number
  of its entries, the null ones included. Entries are counted, not tokens: only when no
  token lists the trait type twice is the sum the number of tokens that have the trait,
  and then it does not exceed the denominator.
\<close>

theorem trait_counts_are_entry_counts:
  assumes "attribute_distribution all_token_data = Inr (tot, counts, lg)"
  shows "tot = int (length (filter (\<lambda>tr. has_attributes (snd tr)) all_token_data))
     \<and> (\<forall>tk vk. count_at (trait_dict counts tk) vk
           = int (length (filter (\<lambda>a. trait_key a = Inr tk \<and> value_key a = Inr vk)
                    (all_attributes all_token_data))))
     \<and> (\<forall>tk. sum_list (map snd (trait_dict counts tk))
           = int (length (filter (\<lambda>a. trait_key a = Inr tk) (all_attributes all_token_data))))
     \<and> (\<forall>a. py_item a ''value'' = Inr PNone \<longrightarrow> value_key a = Inr (KStr []))
     \<and> (\<forall>tk. (\<forall>r\<in>snd ` set all_token_data.
                 length (filter (\<lambda>a. trait_key a = Inr tk) (attributes_of r)) \<le> 1) \<longrightarrow>
           sum_list (map snd (trait_dict counts tk))
             = int (length (filter (\<lambda>tr. \<exists>a\<in>set (attributes_of (snd tr)). trait_key a = Inr tk)
                      all_token_data))
           \<and> sum_list (map snd (trait_dict counts tk)) \<le> tot)"
proof -
  from assms have loop: "attribute_loop all_token_data 0 [] [] = Inr (tot, counts, lg)"
    by (simp add: attribute_distribution_def)
  have empty: "trait_dict [] tk = []" for tk
    by (simp add: trait_dict_def)
  have tot: "tot = int (length (filter (\<lambda>tr. has_attributes (snd tr)) all_token_data))"
    using attribute_loop_counts(1) [OF loop] by simp
  have cell: "count_at (trait_dict counts tk) vk
           = int (length (filter (\<lambda>a. trait_key a = Inr tk \<and> value_key a = Inr vk)
                    (all_attributes all_token_data)))" for tk vk
    using attribute_loop_counts(2) [OF loop, of tk vk] by (simp add: empty count_at_def)
  have row: "sum_list (map snd (trait_dict counts tk))
           = int (length (filter (\<lambda>a. trait_key a = Inr tk) (all_attributes all_token_data)))"
    for tk
    using attribute_loop_counts(3) [OF loop, of tk] by (simp add: empty)
  have null: "value_key a = Inr (KStr [])" if "py_item a ''value'' = Inr PNone" for a
    using that by (simp add: value_key_def bind_exn_def counted_value_def)
  have norep: "sum_list (map snd (trait_dict counts tk))
             = int (length (filter (\<lambda>tr. \<exists>a\<in>set (attributes_of (snd tr)). trait_key a = Inr tk)
                      all_token_data))
           \<and> sum_list (map snd (trait_dict counts tk)) \<le> tot"
    if h: "\<forall>r\<in>snd ` set all_token_data.
                 length (filter (\<lambda>a. trait_key a = Inr tk) (attributes_of r)) \<le> 1" for tk
  proof -
    have eq: "sum_list (map snd (trait_dict counts tk))
             = int (length (filter (\<lambda>tr. \<exists>a\<in>set (attributes_of (snd tr)). trait_key a = Inr tk)
                      all_token_data))"
      using entries_without_repeats [where P = "\<lambda>a. trait_key a = Inr tk", OF h]
      by (simp add: row)
    have "length (filter (\<lambda>tr. \<exists>a\<in>set (attributes_of (snd tr)). trait_key a = Inr tk)
                      all_token_data)
         \<le> length (filter (\<lambda>tr. has_attributes (snd tr)) all_token_data)"
      by (rule length_filter_mono) (auto dest: attributes_of_has_attributes)
    with eq tot show ?thesis by simp
  qed
  from tot cell row null norep show ?thesis by blast
qed

theorem trait_counts_are_entry_counts_witness:
  "attribute_distribution hat_and_eyes
     = Inr (1, [(KStr ''Hat'', [(KStr ''Cap'', 1)]), (KStr ''Eyes'', [(KStr [], 1)])],
            [(INFO, ''Token %s has no attributes'')])
   \<and> sum_list (map snd (trait_dict
         [(KStr ''Hat'', [(KStr ''Cap'', 1)]), (KStr ''Eyes'', [(KStr [], 1)])] (KStr ''Hat'')))
       \<le> 1
   \<and> 1 = int (length (filter (\<lambda>tr. has_attributes (snd tr)) hat_and_eyes))"
proof -
  have run: "attribute_distribution hat_and_eyes
     = Inr (1, [(KStr ''Hat'', [(KStr ''Cap'', 1)]), (KStr ''Eyes'', [(KStr [], 1)])],
            [(INFO, ''Token %s has no attributes'')])"
    by (simp add: attribute_distribution_def hat_and_eyes_def bind_exn_def
        count_attribute_def counted_value_def increment_def zero_if_missing_def Let_def)
  have r1: "record_attributes (PDict [(''token'', PStr ''t1''),
     (''arweave'', PDict [(''attributes'', PList
        [PDict [(''trait_type'', PStr ''Hat''), (''value'', PStr ''Cap'')],
         PDict [(''trait_type'', PStr ''Eyes''), (''value'', PNone)]])])])
     = Inr (PList
        [PDict [(''trait_type'', PStr ''Hat''), (''value'', PStr ''Cap'')],
         PDict [(''trait_type'', PStr ''Eyes''), (''value'', PNone)]])"
    by (simp add: record_attributes_def bind_exn_def)
  have a1: "attributes_of (PDict [(''token'', PStr ''t1''),
     (''arweave'', PDict [(''attributes'', PList
        [PDict [(''trait_type'', PStr ''Hat''), (''value'', PStr ''Cap'')],
         PDict [(''trait_type'', PStr ''Eyes''), (''value'', PNone)]])])])
     = [PDict [(''trait_type'', PStr ''Hat''), (''value'', PStr ''Cap'')],
        PDict [(''trait_type'', PStr ''Eyes''), (''value'', PNone)]]"
    unfolding attributes_of_def r1 by simp
  have a2: "attributes_of (PDict [(''token'', PStr ''t2''), (''arweave'', PDict [])]) = []"
    by (simp add: attributes_of_def record_attributes_def bind_exn_def)
  have k1: "trait_key (PDict [(''trait_type'', PStr ''Hat''), (''value'', PStr ''Cap'')])
      = Inr (KStr ''Hat'')"
    by (simp add: trait_key_def bind_exn_def)
  have k2: "trait_key (PDict [(''trait_type'', PStr ''Eyes''), (''value'', PNone)])
      = Inr (KStr ''Eyes'')"
    by (simp add: trait_key_def bind_exn_def)
  have once: "\<forall>r\<in>snd ` set hat_and_eyes.
      length (filter (\<lambda>a. trait_key a = Inr (KStr ''Hat'')) (attributes_of r)) \<le> 1"
    by (simp add: hat_and_eyes_def a1 a2 k1 k2)
  note all = trait_counts_are_entry_counts [OF run]
  from all have denominator:
    "1 = int (length (filter (\<lambda>tr. has_attributes (snd tr)) hat_and_eyes))"
    by (rule conjunct1)
  from all [THEN conjunct2, THEN conjunct2, THEN conjunct2, THEN conjunct2,
      THEN spec [where x = "KStr ''Hat''"], THEN mp, OF once]
  have "sum_list (map snd (trait_dict
         [(KStr ''Hat'', [(KStr ''Cap'', 1)]), (KStr ''Eyes'', [(KStr [], 1)])] (KStr ''Hat'')))
       \<le> 1"
    by (rule conjunct2)
  with run denominator show ?thesis by simp
qed

text \<open>
  One token that lists the trait type \<open>Hat\<close> twice, once with a null value: the counts of
  \<open>Hat\<close> sum to two, which is more than the denominator, one, and more than the number of
  tokens with a non-null \<open>Hat\<close>, one.
\<close>

theorem trait_counts_are_entry_counts_counterexample:
  "attribute_distribution hat_twice
     = Inr (1, [(KStr ''Hat'', [(KStr ''Cap'', 1), (KStr [], 1)])], [])
   \<and> sum_list (map snd [(KStr ''Cap'', 1), (KStr [], 1::int)]) = 2
   \<and> length hat_twice = 1"
  by (simp add: attribute_distribution_def hat_twice_def bind_exn_def
      count_attribute_def counted_value_def increment_def zero_if_missing_def Let_def)

section \<open>The snapshot rows\<close>

lemma py_find_absent: "c \<notin> set s \<Longrightarrow> py_find s c = -1"
  by (induction s) (auto simp: Let_def)

lemma py_find_present:
  "c \<in> set s \<Longrightarrow> py_find s c = int (length (takeWhile (\<lambda>x. x \<noteq> c) s))"
  by (induction s) (auto simp: Let_def py_find_absent)

lemma slice_after_find:
  "py_slice_from s (py_find s c + 1)
     = (if c \<in> set s then tl (dropWhile (\<lambda>x. x \<noteq> c) s) else s)"
proof (cases "c \<in> set s")
  case True
  have "drop (Suc (length (takeWhile (\<lambda>x. x \<noteq> c) s))) s = tl (dropWhile (\<lambda>x. x \<noteq> c) s)"
    by (simp add: drop_Suc drop_tl dropWhile_eq_drop)
  with True show ?thesis
    by (simp add: py_slice_from_def py_find_present nat_add_distrib)
next
  case False
  then show ?thesis
    by (simp add: py_slice_from_def py_find_absent)
qed

lemma number_of_name_str:
  "number_of_name v = Inr num \<Longrightarrow>
     \<exists>name. v = PStr name \<and> num = PStr (after_first_hash name)"
  by (cases v) (auto simp: slice_after_find after_first_hash_def)

lemma snapshot_row_columns:
  assumes "snapshot_row token data_dict = Inr row"
  shows "\<exists>name. token_name_of data_dict = Inr (PStr name) \<and> TokenName row = PStr name
     \<and> Number row = PStr (after_first_hash name) \<and> Token row = PStr token"
proof -
  from assms obtain th ad where th: "py_item data_dict ''holders'' = Inr th"
    and ad: "py_item data_dict ''account'' = Inr ad"
    by (auto simp: snapshot_row_def bind_exn_def split: sum.splits)
  from assms th ad obtain ha d tn num where "holder_address_of th = Inr ha"
    and d: "py_get ad ''data'' = Inr d" and tn: "py_get d ''name'' = Inr tn"
    and num: "number_of_name tn = Inr num"
    by (auto simp: snapshot_row_def bind_exn_def split: sum.splits)
  with assms th ad have cols: "Number row = num" "TokenName row = tn" "Token row = PStr token"
    by (auto simp: snapshot_row_def bind_exn_def split: sum.splits)
  from number_of_name_str [OF num] obtain name where
    "tn = PStr name" "num = PStr (after_first_hash name)" by blast
  with cols ad d tn show ?thesis
    by (simp add: token_name_of_def bind_exn_def)
qed

lemma holder_snapshot_rows:
  "holder_snapshot m = Inr rows \<Longrightarrow>
     list_all2 (\<lambda>tr row. \<exists>name. token_name_of (snd tr) = Inr (PStr name)
         \<and> TokenName row = PStr name \<and> Number row = PStr (after_first_hash name)
         \<and> Token row = PStr (fst tr)) m rows"
proof (induction m arbitrary: rows)
  case Nil
  then show ?case by simp
next
  case (Cons p m)
  obtain token data_dict where p: "p = (token, data_dict)" by (cases p)
  from Cons.prems obtain row rest where row: "snapshot_row token data_dict = Inr row"
    and rest: "holder_snapshot m = Inr rest" and rows: "rows = row # rest"
    by (auto simp: p bind_exn_def split: sum.splits)
  from snapshot_row_columns [OF row] Cons.IH [OF rest] show ?case
    by (simp add: rows p)
qed

text \<open>
  Claim C10. Whenever \<^verbatim>\<open>holder_snapshot\<close> builds its rows there is one row for each
  record, in the order of the map, and in each row the name is a string, the one the
  record holds at \<^verbatim>\<open>account.data.name\<close>, and the Number column is what follows the first
  \<open>#\<close> of the name, or the whole name when it has no \<open>#\<close>, in which case \<^verbatim>\<open>find\<close> gives
  \<open>-1\<close> and the slice starts at index 0.
\<close>

theorem number_column_after_hash:
  assumes "holder_snapshot all_token_data = Inr rows"
  shows "length rows = length all_token_data
     \<and> (\<forall>i<length rows. \<exists>name.
           token_name_of (snd (all_token_data ! i)) = Inr (PStr name)
           \<and> TokenName (rows ! i) = PStr name
           \<and> Number (rows ! i) = PStr (after_first_hash name)
           \<and> (CHR ''#'' \<notin> set name \<longrightarrow>
                 py_find name (CHR ''#'') + 1 = 0 \<and> Number (rows ! i) = PStr name))"
proof -
  note rows = holder_snapshot_rows [OF assms]
  then have len: "length rows = length all_token_data"
    by (simp add: list_all2_lengthD)
  have "\<exists>name. token_name_of (snd (all_token_data ! i)) = Inr (PStr name)
           \<and> TokenName (rows ! i) = PStr name
           \<and> Number (rows ! i) = PStr (after_first_hash name)
           \<and> (CHR ''#'' \<notin> set name \<longrightarrow>
                 py_find name (CHR ''#'') + 1 = 0 \<and> Number (rows ! i) = PStr name)"
    if "i < length rows" for i
  proof -
    from list_all2_nthD2 [OF rows that] obtain name where
      n: "token_name_of (snd (all_token_data ! i)) = Inr (PStr name)"
        "TokenName (rows ! i) = PStr name"
        "Number (rows ! i) = PStr (after_first_hash name)" by blast
    have "py_find name (CHR ''#'') + 1 = 0 \<and> Number (rows ! i) = PStr name"
      if "CHR ''#'' \<notin> set name"
      using that n(3) by (simp add: py_find_absent after_first_hash_def)
    with n show ?thesis by blast
  qed
  with len show ?thesis by blast
qed

theorem number_column_after_hash_witness:
  "map Number (projr (holder_snapshot two_names)) = [PStr ''1'', PStr ''Genesis'']
   \<and> map TokenName (projr (holder_snapshot two_names)) = [PStr ''Token #1'', PStr ''Genesis'']"
proof -
  have run: "holder_snapshot two_names =
      Inr [\<lparr>Number = PStr ''1'', TokenName = PStr ''Token #1'', Token = PStr ''tok1'',
            HolderAddress = PStr ''owner1'', TotalHeld = PStr ''1''\<rparr>,
           \<lparr>Number = PStr ''Genesis'', TokenName = PStr ''Genesis'', Token = PStr ''tok2'',
            HolderAddress = PStr ''owner1'', TotalHeld = PStr ''1''\<rparr>]"
    by (simp add: two_names_def snapshot_row_def holder_address_of_def bind_exn_def py_or_def
        py_slice_from_def Let_def)
  from number_column_after_hash [OF run] run show ?thesis
    by simp
qed

section \<open>The report of the biggest holders, sorted\<close>

lemma update_fresh:
  "k \<notin> fst ` set al \<Longrightarrow> AList.update k v al = al @ [(k, v)]"
  by (induction al) auto

lemma foldl_update_distinct:
  "distinct (map fst (acc @ ps)) \<Longrightarrow>
     foldl (\<lambda>d kv. AList.update (fst kv) (snd kv) d) acc ps = acc @ ps"
proof (induction ps arbitrary: acc)
  case Nil
  then show ?case by simp
next
  case (Cons p ps)
  from Cons.prems have fresh: "fst p \<notin> fst ` set acc" by auto
  from Cons.prems have "distinct (map fst ((acc @ [p]) @ ps))" by simp
  from Cons.IH [OF this] show ?case
    by (simp add: update_fresh [OF fresh])
qed

lemma py_dict_distinct: "distinct (map fst ps) \<Longrightarrow> py_dict ps = ps"
  using foldl_update_distinct [of "[]" ps] by (simp add: py_dict_def)

lemma py_sorted_reverse:
  fixes xs :: "('a::linorder) list"
  assumes "distinct xs"
  shows "sorted_wrt (\<lambda>x y. y < x) (py_sorted xs True)"
    and "set (py_sorted xs True) = set xs"
    and "distinct (py_sorted xs True)"
    and "length (py_sorted xs True) = length xs"
proof -
  have "sorted_wrt (<) (sort (rev xs))"
    using assms by (simp add: strict_sorted_iff)
  then show "sorted_wrt (\<lambda>x y. y < x) (py_sorted xs True)"
    by (simp add: py_sorted_def sorted_wrt_rev)
  show "set (py_sorted xs True) = set xs" by (simp add: py_sorted_def)
  show "distinct (py_sorted xs True)" using assms by (simp add: py_sorted_def)
  show "length (py_sorted xs True) = length xs" by (simp add: py_sorted_def)
qed

lemma sort_dict_by_values_reverse:
  assumes "distinct (map fst counts)"
  shows "sort_dict_by_values counts True
       = map (\<lambda>vk. (snd vk, fst vk)) (py_sorted (map (\<lambda>kv. (snd kv, fst kv)) counts) True)"
proof -
  let ?hl = "py_sorted (map (\<lambda>kv. (snd kv, fst kv)) counts) True"
  have "map fst (map (\<lambda>vk. (snd vk, fst vk)) ?hl) = map snd ?hl" by simp
  moreover have "distinct (map snd ?hl)"
  proof -
    have "map snd ?hl = rev (map snd (sort (rev (map (\<lambda>kv. (snd kv, fst kv)) counts))))"
      by (simp add: py_sorted_def rev_map)
    moreover have "distinct (map snd (sort (rev (map (\<lambda>kv. (snd kv, fst kv)) counts))))"
    proof -
      have "distinct (map snd (rev (map (\<lambda>kv. (snd kv, fst kv)) counts)))"
        using assms by (simp add: rev_map [symmetric] comp_def)
      then show ?thesis
        by (simp add: distinct_map)
    qed
    ultimately show ?thesis by simp
  qed
  ultimately have "py_dict (map (\<lambda>vk. (snd vk, fst vk)) ?hl) = map (\<lambda>vk. (snd vk, fst vk)) ?hl"
    by (intro py_dict_distinct) (simp add: comp_def)
  then show ?thesis by (simp add: sort_dict_by_values_def Let_def)
qed

lemma scenario_sorted:
  assumes "distinct [a, b, c, d]"
  shows "sort_dict_by_values [(a, 50), (b, 1), (c, 2), (d, 4)] True
       = [(a, 50), (d, 4), (c, 2), (b, 1)]"
proof -
  from assms have "distinct (map fst [(a, 50::int), (b, 1), (c, 2), (d, 4)])" by simp
  from sort_dict_by_values_reverse [OF this] show ?thesis
    by (simp add: py_sorted_def)
qed

text \<open>
  Claim C9. For every address-to-count dict the report lists the holders in descending
  order of the pair of count and address: a bigger count comes first, and of two holders
  with the same count the one with the bigger address comes first. The rows are those of
  the dict, one line each after the three header lines, and a line ends with the label
  in parentheses exactly when the address is in the table of marketplace wallets. In the
  scenario of the claim the unknown address with 50 comes first, without a label, then
  the three wallets with 4, 2 and 1, each with its label.
\<close>

theorem biggest_holders_descending:
  assumes "distinct (map fst counts)"
  shows "sorted_wrt (\<lambda>x y. snd y < snd x \<or> (snd y = snd x \<and> fst y < fst x))
           (sort_dict_by_values counts True)
     \<and> set (sort_dict_by_values counts True) = set counts
     \<and> length (sort_dict_by_values counts True) = length counts
     \<and> print_biggest_holders tokens_total counts
         = [''\<newline>'', ''Total tokens: '' @ str_int tokens_total,
            ''\<newline>Biggest holders:\<newline>----------'']
           @ map holder_line (sort_dict_by_values counts True)
     \<and> (\<forall>holder n label. map_of MARKETPLACE_WALLETS holder = Some label \<longrightarrow>
           holder_line (holder, n) = holder @ '': '' @ str_int n @ '' ('' @ label @ '')'')
     \<and> (\<forall>holder n. map_of MARKETPLACE_WALLETS holder = None \<longrightarrow>
           holder_line (holder, n) = holder @ '': '' @ str_int n)
     \<and> (map_of MARKETPLACE_WALLETS a = None \<and> map_of MARKETPLACE_WALLETS b = Some lb
          \<and> map_of MARKETPLACE_WALLETS c = Some lc \<and> map_of MARKETPLACE_WALLETS d = Some ld
          \<and> distinct [a, b, c, d] \<longrightarrow>
         print_biggest_holders 300 [(a, 50), (b, 1), (c, 2), (d, 4)]
           = [''\<newline>'', ''Total tokens: 300'',
              ''\<newline>Biggest holders:\<newline>----------'',
              a @ '': 50'',
              d @ '': 4 ('' @ ld @ '')'',
              c @ '': 2 ('' @ lc @ '')'',
              b @ '': 1 ('' @ lb @ '')''])"
proof (intro conjI allI impI)
  let ?swap = "map (\<lambda>kv. (snd kv, fst kv)) counts"
  have d: "distinct ?swap"
    using assms by (simp add: distinct_map inj_on_def)
  have rows: "sort_dict_by_values counts True
       = map (\<lambda>vk. (snd vk, fst vk)) (py_sorted ?swap True)"
    using assms by (rule sort_dict_by_values_reverse)
  from py_sorted_reverse(1) [OF d]
  show "sorted_wrt (\<lambda>x y. snd y < snd x \<or> (snd y = snd x \<and> fst y < fst x))
           (sort_dict_by_values counts True)"
    unfolding rows sorted_wrt_map
    by (rule sorted_wrt_mono_rel [rotated]) (auto simp: less_prod_def)
  show "set (sort_dict_by_values counts True) = set counts"
    unfolding rows by (force simp: py_sorted_reverse(2) [OF d] image_iff)
  show "length (sort_dict_by_values counts True) = length counts"
    unfolding rows by (simp add: py_sorted_reverse(4) [OF d])
  show "print_biggest_holders tokens_total counts
         = [''\<newline>'', ''Total tokens: '' @ str_int tokens_total,
            ''\<newline>Biggest holders:\<newline>----------'']
           @ map holder_line (sort_dict_by_values counts True)"
    by (simp add: print_biggest_holders_def Let_def)
next
  fix holder n label
  assume "map_of MARKETPLACE_WALLETS holder = Some label"
  then show "holder_line (holder, n) = holder @ '': '' @ str_int n @ '' ('' @ label @ '')''"
    by (simp add: holder_line_def Let_def)
next
  fix holder n
  assume "map_of MARKETPLACE_WALLETS holder = None"
  then show "holder_line (holder, n) = holder @ '': '' @ str_int n"
    by (simp add: holder_line_def Let_def)
next
  assume h: "map_of MARKETPLACE_WALLETS a = None \<and> map_of MARKETPLACE_WALLETS b = Some lb
          \<and> map_of MARKETPLACE_WALLETS c = Some lc \<and> map_of MARKETPLACE_WALLETS d = Some ld
          \<and> distinct [a, b, c, d]"
  then have "distinct [a, b, c, d]" by blast
  from scenario_sorted [OF this] h
  show "print_biggest_holders 300 [(a, 50), (b, 1), (c, 2), (d, 4)]
           = [''\<newline>'', ''Total tokens: 300'',
              ''\<newline>Biggest holders:\<newline>----------'',
              a @ '': 50'',
              d @ '': 4 ('' @ ld @ '')'',
              c @ '': 2 ('' @ lc @ '')'',
              b @ '': 1 ('' @ lb @ '')'']"
    by (simp add: print_biggest_holders_def Let_def holder_line_def str_int_def digits.simps)
qed

theorem biggest_holders_descending_witness:
  "print_biggest_holders 300 scenario_counts
     = [''\<newline>'', ''Total tokens: 300'',
        ''\<newline>Biggest holders:\<newline>----------'',
        ''holder_A: 50'',
        ''F4ghBzHFNgJxV4wEQDchU5i7n4XWWMBSaq7CuswGiVsr: 4 (DigitalEyes)'',
        ''4pUQS4Jo2dsfWzt3VgHXy3H6RYnEDd11oWPiaM2rdAPw: 2 (AlphaArt)'',
        ''3D49QorJyNaL4rcpiynbuS3pRH4Y7EXEM6v6ZGaqfFGK: 1 (Solanart)'']
   \<and> length (sort_dict_by_values scenario_counts True) = 4"
proof -
  have d: "distinct (map fst scenario_counts)"
    by (simp add: scenario_counts_def)
  note all = biggest_holders_descending [OF d, where a = "''holder_A''"
      and b = "''3D49QorJyNaL4rcpiynbuS3pRH4Y7EXEM6v6ZGaqfFGK''"
      and c = "''4pUQS4Jo2dsfWzt3VgHXy3H6RYnEDd11oWPiaM2rdAPw''"
      and d = "''F4ghBzHFNgJxV4wEQDchU5i7n4XWWMBSaq7CuswGiVsr''"
      and lb = "''Solanart''" and lc = "''AlphaArt''" and ld = "''DigitalEyes''"]
  from all have len: "length (sort_dict_by_values scenario_counts True) = length scenario_counts"
    by blast
  from all have "map_of MARKETPLACE_WALLETS ''holder_A'' = None
      \<and> map_of MARKETPLACE_WALLETS ''3D49QorJyNaL4rcpiynbuS3pRH4Y7EXEM6v6ZGaqfFGK'' = Some ''Solanart''
      \<and> map_of MARKETPLACE_WALLETS ''4pUQS4Jo2dsfWzt3VgHXy3H6RYnEDd11oWPiaM2rdAPw'' = Some ''AlphaArt''
      \<and> map_of MARKETPLACE_WALLETS ''F4ghBzHFNgJxV4wEQDchU5i7n4XWWMBSaq7CuswGiVsr'' = Some ''DigitalEyes''
      \<and> distinct [''holder_A'', ''3D49QorJyNaL4rcpiynbuS3pRH4Y7EXEM6v6ZGaqfFGK'',
           ''4pUQS4Jo2dsfWzt3VgHXy3H6RYnEDd11oWPiaM2rdAPw'',
           ''F4ghBzHFNgJxV4wEQDchU5i7n4XWWMBSaq7CuswGiVsr''] \<longrightarrow>
      print_biggest_holders 300 scenario_counts
       = [''\<newline>'', ''Total tokens: 300'',
          ''\<newline>Biggest holders:\<newline>----------'',
          ''holder_A'' @ '': 50'',
          ''F4ghBzHFNgJxV4wEQDchU5i7n4XWWMBSaq7CuswGiVsr'' @ '': 4 ('' @ ''DigitalEyes'' @ '')'',
          ''4pUQS4Jo2dsfWzt3VgHXy3H6RYnEDd11oWPiaM2rdAPw'' @ '': 2 ('' @ ''AlphaArt'' @ '')'',
          ''3D49QorJyNaL4rcpiynbuS3pRH4Y7EXEM6v6ZGaqfFGK'' @ '': 1 ('' @ ''Solanart'' @ '')'']"
    unfolding scenario_counts_def by blast
  then have "print_biggest_holders 300 scenario_counts
       = [''\<newline>'', ''Total tokens: 300'',
          ''\<newline>Biggest holders:\<newline>----------'',
          ''holder_A'' @ '': 50'',
          ''F4ghBzHFNgJxV4wEQDchU5i7n4XWWMBSaq7CuswGiVsr'' @ '': 4 ('' @ ''DigitalEyes'' @ '')'',
          ''4pUQS4Jo2dsfWzt3VgHXy3H6RYnEDd11oWPiaM2rdAPw'' @ '': 2 ('' @ ''AlphaArt'' @ '')'',
          ''3D49QorJyNaL4rcpiynbuS3pRH4Y7EXEM6v6ZGaqfFGK'' @ '': 1 ('' @ ''Solanart'' @ '')'']"
    by (simp add: MARKETPLACE_WALLETS_def)
  with len show ?thesis
    by (simp add: scenario_counts_def)
qed

end
